theory Spec2Isabelle
  imports Complex_Main "HOL-Library.Log_Nat"
begin

section \<open>JavaScript numbers\<close>

text \<open>
  Every number of the particle simulator is a JavaScript Number, an IEEE-754 binary64
  value. A finite value is carried as the rational it denotes; every arithmetic operation
  computes the exact rational result and rounds it to the nearest binary64 value, ties to
  even (\<open>fl\<close>), overflowing to an infinity. NaN and the two infinities are values of their
  own. The sign of a zero is not represented: the simulator divides only by positive
  constants, by the result of \<open>Math.sqrt\<close> of a sum of squares and by \<open>window.innerHeight\<close>,
  none of which is ever \<open>-0\<close>, and it compares and prints zeros only in ways that do not
  reveal the sign.
\<close>

datatype number = Fin rat | PosInf | NegInf | NaN

text \<open>\<open>pow2 e\<close> is \<open>2^e\<close>, for an integer \<open>e\<close> of either sign.\<close>

definition pow2 :: "int \<Rightarrow> rat" where
  "pow2 e = (if 0 \<le> e then of_int (2 ^ nat e) else 1 / of_int (2 ^ nat (- e)))"

text \<open>\<open>ilog2 q\<close> is the binary exponent of a positive rational: \<open>2^k \<le> q < 2^(k+1)\<close>.\<close>

definition ilog2 :: "rat \<Rightarrow> int" where
  "ilog2 q = (case quotient_of q of (n, d) \<Rightarrow>
     (let k = bitlen n - bitlen d in if pow2 k \<le> q then k else k - 1))"

definition round_half_even :: "rat \<Rightarrow> int" where
  "round_half_even v =
     (let f = \<lfloor>v\<rfloor>; r = v - of_int f in
      if r < 1 / 2 then f
      else if 1 / 2 < r then f + 1
      else if even f then f else f + 1)"

text \<open>
  Rounding to binary64: the magnitude is rounded to an integer multiple \<open>m\<close> of \<open>2^e\<close>,
  where \<open>e\<close> leaves 53 significant bits and is at least \<open>-1074\<close> (below \<open>2^-1022\<close> the
  spacing stays at \<open>2^-1074\<close>: subnormal numbers). The result overflows when \<open>m * 2^e\<close>
  reaches \<open>2^1024\<close>, that is when \<open>m\<close> has more than \<open>1024 - e\<close> bits.
\<close>

definition fl :: "rat \<Rightarrow> number" where
  "fl q =
     (if q = 0 then Fin 0
      else let e = max (ilog2 \<bar>q\<bar> - 52) (- 1074);
               m = round_half_even (\<bar>q\<bar> / pow2 e)
           in if 1024 < bitlen m + e then (if 0 < q then PosInf else NegInf)
              else Fin (if 0 < q then of_int m * pow2 e else - (of_int m * pow2 e)))"

text \<open>A decimal literal of the source denotes the binary64 value nearest to it.\<close>

definition lit :: "rat \<Rightarrow> number" where
  "lit q = fl q"

fun isqrt_bits :: "nat \<Rightarrow> int \<Rightarrow> int \<Rightarrow> int" where
  "isqrt_bits 0 n r = r"
| "isqrt_bits (Suc b) n r = isqrt_bits b n (if (r + 2 ^ b)\<^sup>2 \<le> n then r + 2 ^ b else r)"

definition isqrt :: "int \<Rightarrow> int" where
  "isqrt n = isqrt_bits (nat ((bitlen n + 1) div 2)) n 0"

text \<open>The correctly rounded square root of a positive rational.\<close>

definition sqrt_fl :: "rat \<Rightarrow> number" where
  "sqrt_fl q =
     (let e = ilog2 q div 2 - 52;
          t = q / pow2 (2 * e);
          m = isqrt \<lfloor>t\<rfloor>;
          h = (of_int m + 1 / 2)\<^sup>2
      in Fin (of_int (if t < h then m else if h < t then m + 1
                      else if even m then m else m + 1) * pow2 e))"

instantiation number :: "{zero, one, plus, uminus, times, ord}"
begin

definition zero_number :: number where
  "zero_number = Fin 0"

definition one_number :: number where
  "one_number = Fin 1"

fun plus_number :: "number \<Rightarrow> number \<Rightarrow> number" where
  "plus_number NaN _ = NaN"
| "plus_number _ NaN = NaN"
| "plus_number PosInf NegInf = NaN"
| "plus_number NegInf PosInf = NaN"
| "plus_number PosInf _ = PosInf"
| "plus_number _ PosInf = PosInf"
| "plus_number NegInf _ = NegInf"
| "plus_number _ NegInf = NegInf"
| "plus_number (Fin a) (Fin b) = fl (a + b)"

fun uminus_number :: "number \<Rightarrow> number" where
  "uminus_number (Fin a) = Fin (- a)"
| "uminus_number PosInf = NegInf"
| "uminus_number NegInf = PosInf"
| "uminus_number NaN = NaN"

fun sgn_number :: "number \<Rightarrow> int" where
  "sgn_number (Fin a) = (if a < 0 then - 1 else if a = 0 then 0 else 1)"
| "sgn_number PosInf = 1"
| "sgn_number NegInf = - 1"
| "sgn_number NaN = 0"

fun times_number :: "number \<Rightarrow> number \<Rightarrow> number" where
  "times_number NaN _ = NaN"
| "times_number _ NaN = NaN"
| "times_number (Fin a) (Fin b) = fl (a * b)"
| "times_number a b =
     (let s = sgn_number a * sgn_number b in
      if s = 0 then NaN else if 0 < s then PosInf else NegInf)"

fun less_number :: "number \<Rightarrow> number \<Rightarrow> bool" where
  "less_number NaN _ = False"
| "less_number _ NaN = False"
| "less_number (Fin a) (Fin b) = (a < b)"
| "less_number _ NegInf = False"
| "less_number PosInf _ = False"
| "less_number _ _ = True"

fun less_eq_number :: "number \<Rightarrow> number \<Rightarrow> bool" where
  "less_eq_number NaN _ = False"
| "less_eq_number _ NaN = False"
| "less_eq_number (Fin a) (Fin b) = (a \<le> b)"
| "less_eq_number NegInf _ = True"
| "less_eq_number _ PosInf = True"
| "less_eq_number _ _ = False"

instance ..

end

instantiation number :: "{minus, inverse}"
begin

definition minus_number :: "number \<Rightarrow> number \<Rightarrow> number" where
  "minus_number a b = a + (- b)"

text \<open>A zero divisor is \<open>+0\<close> (see above), so the quotient takes the sign of the dividend.\<close>

fun divide_number :: "number \<Rightarrow> number \<Rightarrow> number" where
  "divide_number NaN _ = NaN"
| "divide_number _ NaN = NaN"
| "divide_number (Fin a) (Fin b) =
     (if b = 0 then (if a = 0 then NaN else if 0 < a then PosInf else NegInf)
      else fl (a / b))"
| "divide_number (Fin a) _ = Fin 0"
| "divide_number PosInf (Fin b) = (if b < 0 then NegInf else PosInf)"
| "divide_number NegInf (Fin b) = (if b < 0 then PosInf else NegInf)"
| "divide_number _ _ = NaN"

definition inverse_number :: "number \<Rightarrow> number" where
  "inverse_number a =
     (case a of Fin q \<Rightarrow> (if q = 0 then PosInf else fl (1 / q)) | NaN \<Rightarrow> NaN | _ \<Rightarrow> Fin 0)"

instance ..

end


text \<open>\<open>Math.round\<close> rounds to the nearest integer, a tie towards \<open>+\<infinity>\<close>.\<close>

fun Math_round :: "number \<Rightarrow> number" where
  "Math_round (Fin a) = Fin (of_int \<lfloor>a + 1 / 2\<rfloor>)"
| "Math_round v = v"

fun Math_sqrt :: "number \<Rightarrow> number" where
  "Math_sqrt (Fin a) = (if a < 0 then NaN else if a = 0 then Fin 0 else sqrt_fl a)"
| "Math_sqrt PosInf = PosInf"
| "Math_sqrt _ = NaN"

definition Math_min :: "number \<Rightarrow> number \<Rightarrow> number" where
  "Math_min a b = (if a = NaN \<or> b = NaN then NaN else if b < a then b else a)"

definition Math_max :: "number \<Rightarrow> number \<Rightarrow> number" where
  "Math_max a b = (if a = NaN \<or> b = NaN then NaN else if a < b then b else a)"

definition Math_PI :: number where
  "Math_PI = lit (3141592653589793 / 1000000000000000)"

text \<open>
  The rounding equations are kept out of the simplifier's default rules: sums, products and
  quotients of finite numbers stay as they are written until they are evaluated.
\<close>

lemma plus_Fin: "Fin a + Fin b = fl (a + b)"
  by simp

lemma times_Fin: "Fin a * Fin b = fl (a * b)"
  by simp

lemma divide_Fin:
  "Fin a / Fin b =
     (if b = 0 then (if a = 0 then NaN else if 0 < a then PosInf else NegInf) else fl (a / b))"
  by simp

lemma minus_Fin: "Fin a - Fin b = fl (a - b)"
  by (simp add: minus_number_def)

lemma sqrt_Fin:
  "Math_sqrt (Fin a) = (if a < 0 then NaN else if a = 0 then Fin 0 else sqrt_fl a)"
  by simp

declare plus_Fin [simp del] times_Fin [simp del] divide_Fin [simp del] sqrt_Fin [simp del]

section \<open>Data model\<close>

text \<open>
  The interfaces \<open>Particle\<close>, \<open>BackgroundParticle\<close> and \<open>MouseState\<close> of
  \<open>particle-effect-for-hero.tsx\<close>. The fields \<open>x\<close>, \<open>y\<close>, \<open>vx\<close>, \<open>vy\<close> and \<open>size\<close>
  occur in several interfaces; they carry the prefix \<open>p_\<close>, \<open>b_\<close> or \<open>m_\<close> of their
  interface here.
\<close>

record Particle =
  p_x :: number
  p_y :: number
  originX :: number
  originY :: number
  p_vx :: number
  p_vy :: number
  p_size :: number
  color :: string
  angle :: number

record BackgroundParticle =
  b_x :: number
  b_y :: number
  b_vx :: number
  b_vy :: number
  b_size :: number
  alpha :: number
  phase :: number

record MouseState =
  m_x :: number
  m_y :: number
  isActive :: bool

text \<open>
  The canvas element behind \<open>canvasRef\<close>: its backing size, its CSS size and whether
  \<open>getContext('2d')\<close> yields a context.
\<close>

record Canvas =
  width :: number
  height :: number
  style_width :: number
  style_height :: number
  has_ctx :: bool

text \<open>
  Calls on the 2D context are recorded in the order they are made. A fill records the fill
  style and the global alpha in force.
\<close>

datatype fill_style =
    Glow "number list" number number number number
  | Rgba "number list" number
  | Css string

datatype ctx_call =
    Scale number number
  | ClearRect number number number number
  | FillRect fill_style number number number number
  | FillCircle fill_style number number number number

text \<open>
  The mutable state of the component \<open>AntiGravityCanvas\<close>: its refs, the text last written
  to the frame-rate element, the entity count last passed to \<open>setEntityCount\<close>, the calls
  made on the drawing context and the number of \<open>requestAnimationFrame\<close> requests made.
\<close>

record Sim =
  canvasRef :: "Canvas option"
  particlesRef :: "Particle list"
  backgroundParticlesRef :: "BackgroundParticle list"
  mouseRef :: MouseState
  frameIdRef :: nat
  lastTimeRef :: number
  lastFpsTimeRef :: number
  frameCountRef :: number
  lastScrollTopRef :: number
  fpsText :: "number option"
  entityCount :: number
  ctxCalls :: "ctx_call list"
  rafRequests :: nat

text \<open>
  What a frame reads from its surroundings: the timestamp, the scroll container behind
  \<open>scrollRef\<close> (its \<open>scrollTop\<close>, if the element is there), \<open>window.innerHeight\<close>, whether
  the frame-rate element behind \<open>fpsRef\<close> is there, the results of the successive calls of
  \<open>Math.random\<close>, and the engine's \<open>Math.sin\<close>.
\<close>

record Env =
  time :: number
  scrollRef :: "number option"
  innerHeight :: number
  fpsRef :: bool
  Math_random :: "nat \<Rightarrow> number"
  Math_sin :: "number \<Rightarrow> number"


section \<open>Configuration constants and helper functions\<close>



definition MOUSE_RADIUS :: number where
  "MOUSE_RADIUS = Fin 250"

definition RETURN_SPEED :: number where
  "RETURN_SPEED = lit (5 / 100)"

definition DAMPING :: number where
  "DAMPING = lit (92 / 100)"

definition REPULSION_STRENGTH :: number where
  "REPULSION_STRENGTH = lit (12 / 10)"

text \<open>\<open>randomRange\<close>, given the result \<open>r\<close> of its call of \<open>Math.random\<close>.\<close>

definition randomRange :: "number \<Rightarrow> number \<Rightarrow> number \<Rightarrow> number" where
  "randomRange lo hi r = r * (hi - lo) + lo"

text \<open>Reading an array beyond its end yields \<open>undefined\<close>, which arithmetic turns into NaN.\<close>

definition item :: "number list \<Rightarrow> nat \<Rightarrow> number" where
  "item xs i = (if i < length xs then xs ! i else NaN)"

definition lerpColor :: "number list \<Rightarrow> number list \<Rightarrow> number \<Rightarrow> number list" where
  "lerpColor start end_c factor =
     map (\<lambda>i. Math_round (item start i + (item end_c i - item start i) * factor)) [0..<3]"

section \<open>Initialization\<close>

text \<open>
  The particle pushed in iteration \<open>i\<close> of the first loop of \<open>initParticles\<close>; the loop
  calls \<open>Math.random\<close> five times per iteration.
\<close>

definition new_particle :: "number \<Rightarrow> number \<Rightarrow> (nat \<Rightarrow> number) \<Rightarrow> nat \<Rightarrow> Particle" where
  "new_particle w h rnd i =
     (let x = rnd (5 * i) * w; y = rnd (5 * i + 1) * h in
      \<lparr>p_x = x, p_y = y, originX = x, originY = y, p_vx = Fin 0, p_vy = Fin 0,
       p_size = randomRange (Fin 1) (lit (25 / 10)) (rnd (5 * i + 2)),
       color = (if rnd (5 * i + 3) > lit (9 / 10) then ''#4285F4'' else ''#ffffff''),
       angle = rnd (5 * i + 4) * Math_PI * Fin 2\<rparr>)"







text \<open>The global mouse handlers.\<close>

definition handleGlobalMouseMove :: "number \<Rightarrow> number \<Rightarrow> Sim \<Rightarrow> Sim" where
  "handleGlobalMouseMove clientX clientY st =
     st\<lparr>mouseRef := \<lparr>m_x = clientX, m_y = clientY, isActive = True\<rparr>\<rparr>"

definition handleGlobalMouseLeave :: "Sim \<Rightarrow> Sim" where
  "handleGlobalMouseLeave st = st\<lparr>mouseRef := (mouseRef st)\<lparr>isActive := False\<rparr>\<rparr>"

section \<open>The animation frame\<close>

text \<open>Frame-rate accounting (the block \<open>FPS Calculation\<close> of \<open>animate\<close>).\<close>

definition fps_update :: "Env \<Rightarrow> Sim \<Rightarrow> Sim" where
  "fps_update env st =
     (let st1 = st\<lparr>frameCountRef := frameCountRef st + Fin 1\<rparr> in
      if time env - lastFpsTimeRef st1 \<ge> Fin 1000
      then st1\<lparr>fpsText := (if fpsRef env then Some (frameCountRef st1) else fpsText st1),
               frameCountRef := Fin 0, lastFpsTimeRef := time env\<rparr>
      else st1)"

text \<open>
  Scroll sampling: the pair \<open>(scrollDelta, scrollProgress)\<close> and the state with the new
  \<open>lastScrollTopRef\<close>. (\<open>maxScroll\<close> is computed by the source and never used.)
\<close>

definition scroll_sample :: "Env \<Rightarrow> Sim \<Rightarrow> (number \<times> number) \<times> Sim" where
  "scroll_sample env st =
     (case scrollRef env of
        None \<Rightarrow> ((Fin 0, Fin 0), st)
      | Some currentScroll \<Rightarrow>
          ((currentScroll - lastScrollTopRef st,
            Math_min (Math_max (currentScroll / innerHeight env) (Fin 0)) (Fin 2)),
           st\<lparr>lastScrollTopRef := currentScroll\<rparr>))"

definition scrollForce_of :: "number \<Rightarrow> number" where
  "scrollForce_of scrollDelta = (- scrollDelta) * lit (5 / 100)"

text \<open>The colour of the frame (the block \<open>Colors\<close>).\<close>

definition currentColor :: "number \<Rightarrow> number list" where
  "currentColor scrollProgress =
     (if scrollProgress \<le> Fin 1
      then lerpColor [Fin 66, Fin 133, Fin 244] [Fin 147, Fin 51, Fin 234] scrollProgress
      else lerpColor [Fin 147, Fin 51, Fin 234] [Fin 34, Fin 211, Fin 238]
             (scrollProgress - Fin 1))"

text \<open>Clearing the canvas and filling it with the pulsing radial gradient.\<close>

definition background_calls :: "Env \<Rightarrow> Canvas \<Rightarrow> number list \<Rightarrow> ctx_call list" where
  "background_calls env canvas rgb =
     (let centerX = width canvas / Fin 2;
          centerY = height canvas / Fin 2;
          pulseSpeed = lit (8 / 10000);
          pulseOpacity = Math_sin env (time env * pulseSpeed) * lit (35 / 1000) + lit (85 / 1000)
      in [ClearRect (Fin 0) (Fin 0) (width canvas) (height canvas),
          FillRect (Glow rgb pulseOpacity centerX centerY
                      (Math_max (width canvas) (height canvas) * lit (7 / 10)))
            (Fin 0) (Fin 0) (width canvas) (height canvas)])"

text \<open>One iteration of the loop over the background particles: the move and the wrap.\<close>

definition bg_move :: "Canvas \<Rightarrow> number \<Rightarrow> BackgroundParticle \<Rightarrow> BackgroundParticle" where
  "bg_move canvas scrollForce p =
     (let p1 = p\<lparr>b_x := b_x p + b_vx p\<rparr>;
          p2 = p1\<lparr>b_y := b_y p1 + (b_vy p1 + scrollForce * lit (1 / 10))\<rparr>;
          p3 = (if b_x p2 < Fin 0 then p2\<lparr>b_x := width canvas\<rparr> else p2);
          p4 = (if b_x p3 > width canvas then p3\<lparr>b_x := Fin 0\<rparr> else p3);
          p5 = (if b_y p4 < Fin 0 then p4\<lparr>b_y := height canvas\<rparr> else p4);
          p6 = (if b_y p5 > height canvas then p5\<lparr>b_y := Fin 0\<rparr> else p5)
      in p6)"

definition bg_call :: "Env \<Rightarrow> BackgroundParticle \<Rightarrow> ctx_call" where
  "bg_call env p =
     (let twinkle = Math_sin env (time env * lit (2 / 1000) + phase p) * lit (5 / 10)
                      + lit (5 / 10);
          currentAlpha = alpha p * (lit (3 / 10) + lit (7 / 10) * twinkle)
      in FillCircle (Css ''#ffffff'') currentAlpha (b_x p) (b_y p) (b_size p))"

text \<open>
  The first loop over the foreground particles, one iteration in three parts: the mouse
  interaction, the scroll wind and the spring force.
\<close>

definition mouse_interaction :: "MouseState \<Rightarrow> Particle \<Rightarrow> Particle" where
  "mouse_interaction mouse p =
     (let dx = m_x mouse - p_x p;
          dy = m_y mouse - p_y p;
          distance = Math_sqrt (dx * dx + dy * dy)
      in if isActive mouse \<and> distance < MOUSE_RADIUS
         then (let forceDirectionX = dx / distance;
                   forceDirectionY = dy / distance;
                   force = (MOUSE_RADIUS - distance) / MOUSE_RADIUS;
                   repulsion = force * REPULSION_STRENGTH
               in p\<lparr>p_vx := p_vx p - forceDirectionX * repulsion * Fin 5,
                     p_vy := p_vy p - forceDirectionY * repulsion * Fin 5\<rparr>)
         else p)"

definition scroll_interaction :: "number \<Rightarrow> Particle \<Rightarrow> Particle" where
  "scroll_interaction scrollForce p = p\<lparr>p_vy := p_vy p + scrollForce\<rparr>"

definition spring_force :: "Particle \<Rightarrow> Particle" where
  "spring_force p =
     (let springDx = originX p - p_x p;
          springDy = originY p - p_y p
      in p\<lparr>p_vx := p_vx p + springDx * RETURN_SPEED,
            p_vy := p_vy p + springDy * RETURN_SPEED\<rparr>)"

definition apply_forces :: "MouseState \<Rightarrow> number \<Rightarrow> Particle \<Rightarrow> Particle" where
  "apply_forces mouse scrollForce p =
     spring_force (scroll_interaction scrollForce (mouse_interaction mouse p))"

text \<open>
  The body of the inner loop of the block \<open>Simplified Collision\<close>, on the two particles
  \<open>p1 = particles[i]\<close> and \<open>p2 = particles[j]\<close>.
\<close>

definition collide :: "Particle \<Rightarrow> Particle \<Rightarrow> Particle \<times> Particle" where
  "collide p1 p2 =
     (let dx = p_x p2 - p_x p1;
          dy = p_y p2 - p_y p1;
          distSq = dx * dx + dy * dy;
          minDist = p_size p1 + p_size p2
      in if distSq < minDist * minDist
         then (let dist = Math_sqrt distSq in
               if dist > lit (1 / 100)
               then (let nx = dx / dist;
                         ny = dy / dist;
                         overlap = minDist - dist;
                         pushX = nx * overlap * lit (5 / 10);
                         pushY = ny * overlap * lit (5 / 10)
                     in (p1\<lparr>p_x := p_x p1 - pushX, p_y := p_y p1 - pushY\<rparr>,
                         p2\<lparr>p_x := p_x p2 + pushX, p_y := p_y p2 + pushY\<rparr>))
               else (p1, p2))
         else (p1, p2))"

definition collide_at :: "nat \<Rightarrow> nat \<Rightarrow> Particle list \<Rightarrow> Particle list" where
  "collide_at i j ps = (case collide (ps ! i) (ps ! j) of (p1, p2) \<Rightarrow> ps[i := p1, j := p2])"

text \<open>\<open>for (let j = ...; j < particles.length; j++)\<close>, entered with \<open>j = i + 1\<close>.\<close>

function collide_from :: "nat \<Rightarrow> nat \<Rightarrow> Particle list \<Rightarrow> Particle list" where
  "collide_from i j ps =
     (if j < length ps then collide_from i (j + 1) (collide_at i j ps) else ps)"
  by pat_completeness auto
termination
  by (relation "measure (\<lambda>(i, j, ps). length ps - j)")
     (auto simp: collide_at_def split: prod.splits)

declare collide_from.simps [simp del]

lemma length_collide_at [simp]: "length (collide_at i j ps) = length ps"
  by (simp add: collide_at_def split: prod.splits)

lemma length_collide_from [simp]: "length (collide_from i j ps) = length ps"
proof (induction i j ps rule: collide_from.induct)
  case (1 i j ps)
  show ?case
  proof (cases "j < length ps")
    case True
    with 1 show ?thesis by (subst collide_from.simps) simp
  next
    case False
    then show ?thesis by (subst collide_from.simps) simp
  qed
qed

text \<open>Damping and integration of one particle.\<close>

definition integrate :: "Particle \<Rightarrow> Particle" where
  "integrate p =
     (let p1 = p\<lparr>p_vx := p_vx p * DAMPING\<rparr>;
          p2 = p1\<lparr>p_vy := p_vy p1 * DAMPING\<rparr>;
          p3 = p2\<lparr>p_x := p_x p2 + p_vx p2\<rparr>
      in p3\<lparr>p_y := p_y p3 + p_vy p3\<rparr>)"

text \<open>The fill of one particle; \<open>r\<close> is the result of its call of \<open>Math.random\<close>.\<close>

definition particle_call :: "number list \<Rightarrow> number \<Rightarrow> Particle \<Rightarrow> ctx_call" where
  "particle_call rgb r p =
     (let velocity = Math_sqrt (p_vx p * p_vx p + p_vy p * p_vy p);
          opacity = Math_min (lit (3 / 10) + velocity * lit (1 / 10)) (Fin 1);
          fillStyle = (if r > lit (995 / 1000) then Rgba rgb opacity
                       else if color p = ''#ffffff''
                            then Rgba [Fin 255, Fin 255, Fin 255] opacity
                            else Css (color p))
      in FillCircle fillStyle (Fin 1) (p_x p) (p_y p) (p_size p))"

text \<open>
  One iteration of the second loop over the foreground particles, before the drawing: the
  collision checks of an even index \<open>i\<close>, then damping and integration of \<open>particles[i]\<close>.
\<close>

definition collision_step :: "nat \<Rightarrow> Particle list \<Rightarrow> Particle list" where
  "collision_step i ps =
     (let ps1 = (if i mod 2 = 0 then collide_from i (i + 1) ps else ps)
      in ps1[i := integrate (ps1 ! i)])"

lemma length_collision_step [simp]: "length (collision_step i ps) = length ps"
  by (simp add: collision_step_def Let_def)

text \<open>The second loop over the foreground particles, from index \<open>i\<close> on.\<close>

function collision_loop ::
  "number list \<Rightarrow> (nat \<Rightarrow> number) \<Rightarrow> nat \<Rightarrow> Particle list \<Rightarrow> ctx_call list
     \<Rightarrow> Particle list \<times> ctx_call list" where
  "collision_loop rgb rnd i ps calls =
     (if i < length ps
      then (let ps1 = collision_step i ps
            in collision_loop rgb rnd (i + 1) ps1
                 (calls @ [particle_call rgb (rnd i) (ps1 ! i)]))
      else (ps, calls))"
  by pat_completeness auto
termination
  by (relation "measure (\<lambda>(rgb, rnd, i, ps, calls). length ps - i)") auto

declare collision_loop.simps [simp del]

text \<open>
  \<open>animate(time)\<close>, the frame callback. Without a canvas or without a context it returns
  at once; otherwise it runs to the request of the next frame.
\<close>

definition animate :: "Env \<Rightarrow> Sim \<Rightarrow> Sim" where
  "animate env st =
     (case canvasRef st of
        None \<Rightarrow> st
      | Some canvas \<Rightarrow>
          if \<not> has_ctx canvas then st
          else
            (let st1 = st\<lparr>lastTimeRef := time env\<rparr>;
                 st2 = fps_update env st1;
                 ((scrollDelta, scrollProgress), st3) = scroll_sample env st2;
                 scrollForce = scrollForce_of scrollDelta;
                 rgb = currentColor scrollProgress;
                 calls1 = ctxCalls st3 @ background_calls env canvas rgb;
                 bgParticles = map (bg_move canvas scrollForce) (backgroundParticlesRef st3);
                 calls2 = calls1 @ map (bg_call env) bgParticles;
                 particles = map (apply_forces (mouseRef st3) scrollForce) (particlesRef st3);
                 (particles', calls3) =
                    collision_loop rgb (Math_random env) 0 particles calls2
             in st3\<lparr>backgroundParticlesRef := bgParticles,
                     particlesRef := particles',
                     ctxCalls := calls3,
                     rafRequests := rafRequests st3 + 1,
                     frameIdRef := rafRequests st3 + 1\<rparr>))"

section \<open>Comparison of numbers\<close>

text \<open>
  \<open><\<close> and \<open>\<le>\<close> on numbers are the comparisons of JavaScript: every comparison with NaN is
  false, so they do not form an order and the laws used below are proved one by one.
\<close>

lemma less_number_irrefl [simp]: "\<not> (a::number) < a"
  by (cases a) simp_all

lemma less_le_number_trans: "(a::number) \<le> b \<Longrightarrow> b < c \<Longrightarrow> a < c"
  by (cases a; cases b; cases c) simp_all

lemma less_number_asym: "(a::number) < b \<Longrightarrow> \<not> b < a"
  by (cases a; cases b) simp_all

section \<open>Example states\<close>

definition example_env :: Env where
  "example_env =
     \<lparr>time = Fin 16, scrollRef = Some (Fin 100), innerHeight = Fin 800, fpsRef = True,
      Math_random = (\<lambda>k. Fin (1 / 2)), Math_sin = (\<lambda>v. Fin 0)\<rparr>"

definition example_canvas :: Canvas where
  "example_canvas =
     \<lparr>width = Fin 800, height = Fin 600, style_width = Fin 800, style_height = Fin 600,
      has_ctx = True\<rparr>"

definition example_state :: Sim where
  "example_state =
     \<lparr>canvasRef = Some example_canvas, particlesRef = [], backgroundParticlesRef = [],
      mouseRef = \<lparr>m_x = Fin (- 1000), m_y = Fin (- 1000), isActive = False\<rparr>,
      frameIdRef = 0, lastTimeRef = Fin 0, lastFpsTimeRef = Fin 0, frameCountRef = Fin 0,
      lastScrollTopRef = Fin 0, fpsText = None, entityCount = Fin 0, ctxCalls = [],
      rafRequests = 0\<rparr>"

section \<open>A frame without a canvas or a drawing context\<close>



section \<open>Background particles\<close>

text \<open>The background particles after a frame, and the coordinates \<open>bg_move\<close> leaves.\<close>

lemma animate_bg:
  assumes "canvasRef st = Some canvas" and "has_ctx canvas"
  shows "backgroundParticlesRef (animate env st) =
     map (bg_move canvas (scrollForce_of
            (case scrollRef env of None \<Rightarrow> Fin 0
             | Some currentScroll \<Rightarrow> currentScroll - lastScrollTopRef st)))
       (backgroundParticlesRef st)"
  using assms
  by (auto simp: animate_def Let_def scroll_sample_def fps_update_def
           split: option.splits prod.splits)

lemma bg_move_x:
  "b_x (bg_move canvas sf p) =
     (let x1 = b_x p + b_vx p in
      if x1 < Fin 0 then width canvas else if x1 > width canvas then Fin 0 else x1)"
  by (simp add: bg_move_def Let_def)

lemma bg_move_y:
  "b_y (bg_move canvas sf p) =
     (let y1 = b_y p + (b_vy p + sf * lit (1 / 10)) in
      if y1 < Fin 0 then height canvas else if y1 > height canvas then Fin 0 else y1)"
  by (simp add: bg_move_def Let_def)

text \<open>
  Claim C8. Background particles wrap at the four edges of the canvas. A frame advances a
  particle to \<open>x1 = x + vx\<close> and \<open>y1 = y + (vy + scrollForce * 0.1)\<close>. If \<open>x1\<close> is below
  zero the particle is put on the right edge \<open>canvas.width\<close>; if \<open>x1\<close> is beyond
  \<open>canvas.width\<close> it is put on the left edge \<open>0\<close>; otherwise it stays at \<open>x1\<close>. The same
  holds vertically with \<open>canvas.height\<close>. The edges are those of the canvas's backing
  store, \<open>canvas.width\<close> and \<open>canvas.height\<close>, which are never negative.
\<close>

theorem background_wrap:
  assumes "canvasRef st = Some canvas" and "has_ctx canvas"
    and "Fin 0 \<le> width canvas" and "Fin 0 \<le> height canvas"
    and "i < length (backgroundParticlesRef st)"
    and "p = backgroundParticlesRef st ! i"
    and "p' = backgroundParticlesRef (animate env st) ! i"
    and "scrollForce = scrollForce_of
           (case scrollRef env of None \<Rightarrow> Fin 0
            | Some currentScroll \<Rightarrow> currentScroll - lastScrollTopRef st)"
    and "x1 = b_x p + b_vx p"
    and "y1 = b_y p + (b_vy p + scrollForce * lit (1 / 10))"
  shows "(x1 < Fin 0 \<longrightarrow> b_x p' = width canvas)
       \<and> (x1 > width canvas \<longrightarrow> b_x p' = Fin 0)
       \<and> (\<not> x1 < Fin 0 \<and> \<not> x1 > width canvas \<longrightarrow> b_x p' = x1)
       \<and> (y1 < Fin 0 \<longrightarrow> b_y p' = height canvas)
       \<and> (y1 > height canvas \<longrightarrow> b_y p' = Fin 0)
       \<and> (\<not> y1 < Fin 0 \<and> \<not> y1 > height canvas \<longrightarrow> b_y p' = y1)"
proof -
  have p': "p' = bg_move canvas scrollForce p"
    using assms by (simp add: animate_bg)
  have x: "x1 > width canvas \<Longrightarrow> \<not> x1 < Fin 0"
    using assms(3) less_le_number_trans less_number_asym by blast
  have y: "y1 > height canvas \<Longrightarrow> \<not> y1 < Fin 0"
    using assms(4) less_le_number_trans less_number_asym by blast
  show ?thesis
    using x y by (auto simp: p' bg_move_x bg_move_y Let_def assms(9,10))
qed

text \<open>
  Three background particles: one leaving to the right and the top, one leaving to the left
  and the bottom, one staying inside; the scroll offset moved from 0 to 100.
\<close>

definition wrap_state :: Sim where
  "wrap_state = example_state\<lparr>backgroundParticlesRef :=
     [\<lparr>b_x = Fin (1599 / 2), b_y = Fin (1 / 4), b_vx = Fin (3 / 4), b_vy = Fin (- 1 / 8),
       b_size = Fin 1, alpha = Fin (1 / 4), phase = Fin 1\<rparr>,
      \<lparr>b_x = Fin (1 / 4), b_y = Fin (1199 / 2), b_vx = Fin (- 1 / 2), b_vy = Fin (5 / 4),
       b_size = Fin 1, alpha = Fin (1 / 4), phase = Fin 1\<rparr>,
      \<lparr>b_x = Fin 400, b_y = Fin 300, b_vx = Fin (1 / 4), b_vy = Fin (3 / 4),
       b_size = Fin 1, alpha = Fin (1 / 4), phase = Fin 1\<rparr>]\<rparr>"

lemma wrap_state_canvas:
  "canvasRef wrap_state = Some example_canvas" "has_ctx example_canvas"
  "Fin 0 \<le> width example_canvas" "Fin 0 \<le> height example_canvas"
  "length (backgroundParticlesRef wrap_state) = 3"
  by (simp_all add: wrap_state_def example_state_def example_canvas_def)

lemma wrap_state_scrollForce:
  "scrollForce_of (case scrollRef example_env of None \<Rightarrow> Fin 0
     | Some currentScroll \<Rightarrow> currentScroll - lastScrollTopRef wrap_state) * lit (1 / 10)
   = Fin (- 1 / 2)"
  by code_simp

theorem background_wrap_witness:
  "map (\<lambda>p. (b_x p, b_y p)) (backgroundParticlesRef (animate example_env wrap_state)) =
     [(Fin 0, Fin 600), (Fin 800, Fin 0), (Fin (1601 / 4), Fin (1201 / 4))]"
proof -
  let ?ps = "backgroundParticlesRef wrap_state"
  let ?ps' = "backgroundParticlesRef (animate example_env wrap_state)"
  have ps: "?ps ! 0 = \<lparr>b_x = Fin (1599 / 2), b_y = Fin (1 / 4), b_vx = Fin (3 / 4),
       b_vy = Fin (- 1 / 8), b_size = Fin 1, alpha = Fin (1 / 4), phase = Fin 1\<rparr>"
    "?ps ! Suc 0 = \<lparr>b_x = Fin (1 / 4), b_y = Fin (1199 / 2), b_vx = Fin (- 1 / 2),
       b_vy = Fin (5 / 4), b_size = Fin 1, alpha = Fin (1 / 4), phase = Fin 1\<rparr>"
    "?ps ! 2 = \<lparr>b_x = Fin 400, b_y = Fin 300, b_vx = Fin (1 / 4), b_vy = Fin (3 / 4),
       b_size = Fin 1, alpha = Fin (1 / 4), phase = Fin 1\<rparr>"
    by (simp_all add: wrap_state_def example_state_def)
  have w: "width example_canvas = Fin 800" "height example_canvas = Fin 600"
    by (simp_all add: example_canvas_def)
  have x0: "Fin 800 < Fin (1599 / 2) + Fin (3 / 4)"
    and y0: "Fin (1 / 4) + (Fin (- 1 / 8) + Fin (- 1 / 2)) < Fin 0"
    and x1: "Fin (1 / 4) + Fin (- 1 / 2) < Fin 0"
    and y1: "Fin 600 < Fin (1199 / 2) + (Fin (5 / 4) + Fin (- 1 / 2))"
    and x2: "Fin 400 + Fin (1 / 4) = Fin (1601 / 4)"
    and y2: "Fin 300 + (Fin (3 / 4) + Fin (- 1 / 2)) = Fin (1201 / 4)"
    by code_simp+
  have len: "length ?ps' = 3"
    using wrap_state_canvas by (simp add: animate_bg)
  have p0: "b_x (?ps' ! 0) = Fin 0 \<and> b_y (?ps' ! 0) = Fin 600"
    using background_wrap [OF wrap_state_canvas(1-4) _ refl refl refl refl refl,
        of 0 example_env] x0 y0
    by (simp add: w ps wrap_state_canvas(5) wrap_state_scrollForce)
  have p1: "b_x (?ps' ! 1) = Fin 800 \<and> b_y (?ps' ! 1) = Fin 0"
    using background_wrap [OF wrap_state_canvas(1-4) _ refl refl refl refl refl,
        of 1 example_env] x1 y1
    by (simp add: w ps wrap_state_canvas(5) wrap_state_scrollForce)
  have p2: "b_x (?ps' ! 2) = Fin (1601 / 4) \<and> b_y (?ps' ! 2) = Fin (1201 / 4)"
    using background_wrap [OF wrap_state_canvas(1-4) _ refl refl refl refl refl,
        of 2 example_env] x2 y2
    by (simp add: w ps wrap_state_canvas(5) wrap_state_scrollForce)
  obtain a b c where abc: "?ps' = [a, b, c]"
    using len by (metis (no_types) length_0_conv length_Suc_conv numeral_3_eq_3)
  show ?thesis
    using p0 p1 p2 by (simp add: abc)
qed

section \<open>The gradient colour\<close>

lemma stop_differences:
  "Fin 147 - Fin 66 = Fin 81" "Fin 51 - Fin 133 = Fin (- 82)" "Fin 234 - Fin 244 = Fin (- 10)"
  "Fin 34 - Fin 147 = Fin (- 113)" "Fin 211 - Fin 51 = Fin 160" "Fin 238 - Fin 234 = Fin 4"
  by code_simp+

lemma currentColor_low:
  "t \<le> Fin 1 \<Longrightarrow> currentColor t =
     [Math_round (Fin 66 + Fin 81 * t), Math_round (Fin 133 + Fin (- 82) * t),
      Math_round (Fin 244 + Fin (- 10) * t)]"
  by (simp add: currentColor_def lerpColor_def item_def upt_rec stop_differences)

lemma currentColor_high:
  "\<not> t \<le> Fin 1 \<Longrightarrow> currentColor t =
     [Math_round (Fin 147 + Fin (- 113) * (t - Fin 1)), Math_round (Fin 51 + Fin 160 * (t - Fin 1)),
      Math_round (Fin 234 + Fin 4 * (t - Fin 1))]"
  by (simp add: currentColor_def lerpColor_def item_def upt_rec stop_differences)

lemma currentColor_stops:
  "currentColor (Fin 0) = [Fin 66, Fin 133, Fin 244]"
  "currentColor (Fin 1) = [Fin 147, Fin 51, Fin 234]"
  "currentColor (Fin 2) = [Fin 34, Fin 211, Fin 238]"
  by code_simp+

lemma scrollProgress_range:
  "snd (fst (scroll_sample env st)) = t \<Longrightarrow> t = NaN \<or> (Fin 0 \<le> t \<and> t \<le> Fin 2)"
proof (cases "scrollRef env")
  case None
  then show "snd (fst (scroll_sample env st)) = t \<Longrightarrow> ?thesis"
    by (auto simp: scroll_sample_def)
next
  case (Some currentScroll)
  assume "snd (fst (scroll_sample env st)) = t"
  then have t: "t = Math_min (Math_max (currentScroll / innerHeight env) (Fin 0)) (Fin 2)"
    using Some by (simp add: scroll_sample_def)
  show ?thesis
    unfolding t by (cases "currentScroll / innerHeight env") (auto simp: Math_min_def Math_max_def)
qed

text \<open>
  Claim C3. The colour of a frame is a three-stop interpolation over \<open>scrollProgress\<close>,
  which the scroll sampling keeps within \<open>[0, 2]\<close> (or NaN). At progress 0, 1 and 2 it is
  exactly \<open>(66,133,244)\<close>, \<open>(147,51,234)\<close> and \<open>(34,211,238)\<close>. For a progress of at most 1
  each channel is the first stop plus the difference to the second stop times the progress;
  otherwise it is the second stop plus the difference to the third stop times
  \<open>progress - 1\<close>. Each channel is computed on its own and rounded to the nearest integer
  by \<open>Math.round\<close>.
\<close>

theorem gradient_color:
  "currentColor (Fin 0) = [Fin 66, Fin 133, Fin 244]
   \<and> currentColor (Fin 1) = [Fin 147, Fin 51, Fin 234]
   \<and> currentColor (Fin 2) = [Fin 34, Fin 211, Fin 238]
   \<and> (\<forall>t. t \<le> Fin 1 \<longrightarrow> currentColor t =
         [Math_round (Fin 66 + Fin 81 * t), Math_round (Fin 133 + Fin (- 82) * t),
          Math_round (Fin 244 + Fin (- 10) * t)])
   \<and> (\<forall>t. \<not> t \<le> Fin 1 \<longrightarrow> currentColor t =
         [Math_round (Fin 147 + Fin (- 113) * (t - Fin 1)),
          Math_round (Fin 51 + Fin 160 * (t - Fin 1)),
          Math_round (Fin 234 + Fin 4 * (t - Fin 1))])
   \<and> (\<forall>env st t. snd (fst (scroll_sample env st)) = t
         \<longrightarrow> t = NaN \<or> (Fin 0 \<le> t \<and> t \<le> Fin 2))"
  using currentColor_stops currentColor_low currentColor_high scrollProgress_range
  by blast

theorem gradient_color_witness:
  "currentColor (Fin (1 / 2)) = [Fin 107, Fin 92, Fin 239]
   \<and> currentColor (Fin (3 / 2)) = [Fin 91, Fin 131, Fin 236]
   \<and> snd (fst (scroll_sample example_env example_state)) = Fin (1 / 8)"
proof -
  have a: "Fin (1 / 2) \<le> Fin 1" "\<not> Fin (3 / 2) \<le> Fin 1"
    by simp_all
  have lo: "Math_round (Fin 66 + Fin 81 * Fin (1 / 2)) = Fin 107"
    "Math_round (Fin 133 + Fin (- 82) * Fin (1 / 2)) = Fin 92"
    "Math_round (Fin 244 + Fin (- 10) * Fin (1 / 2)) = Fin 239"
    by code_simp+
  have hi: "Math_round (Fin 147 + Fin (- 113) * (Fin (3 / 2) - Fin 1)) = Fin 91"
    "Math_round (Fin 51 + Fin 160 * (Fin (3 / 2) - Fin 1)) = Fin 131"
    "Math_round (Fin 234 + Fin 4 * (Fin (3 / 2) - Fin 1)) = Fin 236"
    by code_simp+
  have pr: "snd (fst (scroll_sample example_env example_state)) = Fin (1 / 8)"
    by code_simp
  show ?thesis
    using gradient_color a lo hi pr by simp
qed

section \<open>What the collision loop changes\<close>

text \<open>
  The collision checks move particles and change nothing else of them:
  \<open>same_but_position p q\<close> says that \<open>q\<close> is \<open>p\<close> up to its position.
\<close>

definition same_but_position :: "Particle \<Rightarrow> Particle \<Rightarrow> bool" where
  "same_but_position p q \<longleftrightarrow>
     originX q = originX p \<and> originY q = originY p \<and> p_vx q = p_vx p \<and> p_vy q = p_vy p \<and>
     p_size q = p_size p \<and> color q = color p \<and> angle q = angle p"

lemma same_but_position_refl [simp]: "same_but_position p p"
  by (simp add: same_but_position_def)

lemma same_but_position_trans:
  "same_but_position p q \<Longrightarrow> same_but_position q r \<Longrightarrow> same_but_position p r"
  by (simp add: same_but_position_def)

lemma collide_same:
  "same_but_position p1 (fst (collide p1 p2))" "same_but_position p2 (snd (collide p1 p2))"
  by (simp_all add: collide_def Let_def same_but_position_def)

lemma collide_at_nth:
  "k < length ps \<Longrightarrow> same_but_position (ps ! k) (collide_at i j ps ! k)"
  by (cases "k = j"; cases "k = i")
     (simp_all add: collide_at_def split_beta collide_same nth_list_update)

lemma collide_at_other:
  "k \<noteq> i \<Longrightarrow> k \<noteq> j \<Longrightarrow> collide_at i j ps ! k = ps ! k"
  by (simp add: collide_at_def split_beta)

lemma collide_from_nth:
  "k < length ps \<Longrightarrow> same_but_position (ps ! k) (collide_from i j ps ! k)"
proof (induction i j ps rule: collide_from.induct)
  case (1 i j ps)
  show ?case
  proof (cases "j < length ps")
    case True
    have "same_but_position (ps ! k) (collide_at i j ps ! k)"
      using "1.prems" by (rule collide_at_nth)
    moreover have "same_but_position (collide_at i j ps ! k)
        (collide_from i (j + 1) (collide_at i j ps) ! k)"
      using "1.IH" [OF True] "1.prems" by simp
    ultimately show ?thesis
      using True by (subst collide_from.simps) (auto intro: same_but_position_trans)
  next
    case False
    then show ?thesis by (subst collide_from.simps) simp
  qed
qed

lemma collide_from_other:
  "k \<noteq> i \<Longrightarrow> k < j \<Longrightarrow> collide_from i j ps ! k = ps ! k"
proof (induction i j ps rule: collide_from.induct)
  case (1 i j ps)
  show ?case
  proof (cases "j < length ps")
    case True
    have "collide_from i (j + 1) (collide_at i j ps) ! k = collide_at i j ps ! k"
      using "1.IH" [OF True] "1.prems" by simp
    then show ?thesis
      using True "1.prems" by (subst collide_from.simps) (simp add: collide_at_other)
  next
    case False
    then show ?thesis by (subst collide_from.simps) simp
  qed
qed

text \<open>
  One iteration of the second loop integrates \<open>particles[i]\<close>, after the collision checks
  have at most moved it, leaves the particles before \<open>i\<close> as they are and at most moves the
  particles after \<open>i\<close>.
\<close>

lemma collision_step_at:
  assumes "i < length ps"
  shows "\<exists>q. same_but_position (ps ! i) q \<and> collision_step i ps ! i = integrate q"
proof (cases "i mod 2 = 0")
  case True
  then show ?thesis
    using assms collide_from_nth [of i ps i "i + 1"] by (auto simp: collision_step_def Let_def)
next
  case False
  then have "collision_step i ps ! i = integrate (ps ! i)"
    using assms by (simp add: collision_step_def Let_def)
  then show ?thesis
    using same_but_position_refl by blast
qed

lemma collision_step_before:
  "k < i \<Longrightarrow> collision_step i ps ! k = ps ! k"
  by (simp add: collision_step_def Let_def collide_from_other)

lemma collision_step_after:
  "i < k \<Longrightarrow> k < length ps \<Longrightarrow> same_but_position (ps ! k) (collision_step i ps ! k)"
  by (simp add: collision_step_def Let_def collide_from_nth)

lemma collision_loop_length [simp]:
  "length (fst (collision_loop rgb rnd i ps calls)) = length ps"
proof (induction rgb rnd i ps calls rule: collision_loop.induct)
  case (1 rgb rnd i ps calls)
  show ?case
  proof (cases "i < length ps")
    case True
    with 1 show ?thesis by (subst collision_loop.simps) (simp add: Let_def)
  next
    case False
    then show ?thesis by (subst collision_loop.simps) simp
  qed
qed

lemma collision_loop_before:
  "k < i \<Longrightarrow> fst (collision_loop rgb rnd i ps calls) ! k = ps ! k"
proof (induction rgb rnd i ps calls rule: collision_loop.induct)
  case (1 rgb rnd i ps calls)
  show ?case
  proof (cases "i < length ps")
    case True
    have "fst (collision_loop rgb rnd (i + 1) (collision_step i ps)
        (calls @ [particle_call rgb (rnd i) (collision_step i ps ! i)])) ! k
      = collision_step i ps ! k"
      using "1.IH" [OF True refl] "1.prems" by simp
    then show ?thesis
      using True "1.prems"
      by (subst collision_loop.simps) (simp add: Let_def collision_step_before)
  next
    case False
    then show ?thesis by (subst collision_loop.simps) simp
  qed
qed

text \<open>
  After the loop every particle from \<open>i\<close> on is the integration of a particle that differs
  from the one before the loop in its position only: it has been damped and integrated
  exactly once, after the collision checks that involve it.
\<close>

lemma collision_loop_from:
  "i \<le> k \<Longrightarrow> k < length ps \<Longrightarrow>
     \<exists>q. same_but_position (ps ! k) q \<and> fst (collision_loop rgb rnd i ps calls) ! k = integrate q"
proof (induction rgb rnd i ps calls rule: collision_loop.induct)
  case (1 rgb rnd i ps calls)
  let ?ps1 = "collision_step i ps"
  let ?rest = "collision_loop rgb rnd (i + 1) ?ps1 (calls @ [particle_call rgb (rnd i) (?ps1 ! i)])"
  have i: "i < length ps"
    using "1.prems" by simp
  have unfold: "collision_loop rgb rnd i ps calls = ?rest"
    using i by (subst collision_loop.simps) (simp add: Let_def)
  show ?case
  proof (cases "k = i")
    case True
    have "fst ?rest ! i = ?ps1 ! i"
      by (rule collision_loop_before) simp
    then show ?thesis
      using collision_step_at [OF i] True unfold by simp
  next
    case False
    then have k: "i + 1 \<le> k" "k < length ?ps1" "i < k"
      using "1.prems" by simp_all
    obtain q where q: "same_but_position (?ps1 ! k) q" "fst ?rest ! k = integrate q"
      using "1.IH" [OF i refl k(1,2)] by blast
    have "same_but_position (ps ! k) (?ps1 ! k)"
      using k(3) "1.prems"(2) by (rule collision_step_after)
    then have "same_but_position (ps ! k) q"
      using q(1) by (rule same_but_position_trans)
    then show ?thesis
      using q(2) unfold by auto
  qed
qed

section \<open>Foreground particles over a frame\<close>

text \<open>The scroll force of a frame, as \<open>animate\<close> computes it from the state and the surroundings.\<close>

lemma animate_particles:
  assumes "canvasRef st = Some canvas" and "has_ctx canvas"
  shows "\<exists>rgb calls. particlesRef (animate env st) =
     fst (collision_loop rgb (Math_random env) 0
       (map (apply_forces (mouseRef st) (scrollForce_of
            (case scrollRef env of None \<Rightarrow> Fin 0
             | Some currentScroll \<Rightarrow> currentScroll - lastScrollTopRef st)))
          (particlesRef st)) calls)"
proof (cases "scrollRef env")
  case None
  then show ?thesis
    using assms
    by (simp add: animate_def Let_def scroll_sample_def fps_update_def split_beta) blast
next
  case (Some currentScroll)
  then show ?thesis
    using assms
    by (simp add: animate_def Let_def scroll_sample_def fps_update_def split_beta) blast
qed

lemma animate_length [simp]:
  "length (particlesRef (animate env st)) = length (particlesRef st)"
proof (cases "\<exists>canvas. canvasRef st = Some canvas \<and> has_ctx canvas")
  case True
  then show ?thesis
    using animate_particles [of st _ env] by auto
next
  case False
  then have "animate env st = st"
    by (auto simp: animate_def split: option.splits)
  then show ?thesis by simp
qed

lemma animate_particle:
  assumes "canvasRef st = Some canvas" and "has_ctx canvas"
    and "k < length (particlesRef st)"
  shows "\<exists>q. same_but_position
           (apply_forces (mouseRef st) (scrollForce_of
              (case scrollRef env of None \<Rightarrow> Fin 0
               | Some currentScroll \<Rightarrow> currentScroll - lastScrollTopRef st))
              (particlesRef st ! k)) q
         \<and> particlesRef (animate env st) ! k = integrate q"
proof -
  let ?f = "apply_forces (mouseRef st) (scrollForce_of
              (case scrollRef env of None \<Rightarrow> Fin 0
               | Some currentScroll \<Rightarrow> currentScroll - lastScrollTopRef st))"
  obtain rgb calls where r: "particlesRef (animate env st) =
      fst (collision_loop rgb (Math_random env) 0 (map ?f (particlesRef st)) calls)"
    using animate_particles [OF assms(1,2)] by blast
  have "\<exists>q. same_but_position (map ?f (particlesRef st) ! k) q
      \<and> fst (collision_loop rgb (Math_random env) 0 (map ?f (particlesRef st)) calls) ! k
        = integrate q"
    by (rule collision_loop_from) (use assms(3) in simp_all)
  then show ?thesis
    using assms(3) r by simp
qed

lemma apply_forces_origin [simp]:
  "originX (apply_forces mouse sf p) = originX p" "originY (apply_forces mouse sf p) = originY p"
  by (simp_all add: apply_forces_def spring_force_def scroll_interaction_def
        mouse_interaction_def Let_def)

lemma integrate_origin [simp]:
  "originX (integrate p) = originX p" "originY (integrate p) = originY p"
  by (simp_all add: integrate_def Let_def)

lemma animate_origin:
  assumes "k < length (particlesRef st)"
  shows "originX (particlesRef (animate env st) ! k) = originX (particlesRef st ! k)
       \<and> originY (particlesRef (animate env st) ! k) = originY (particlesRef st ! k)"
proof (cases "\<exists>canvas. canvasRef st = Some canvas \<and> has_ctx canvas")
  case True
  then obtain canvas where c: "canvasRef st = Some canvas" "has_ctx canvas"
    by blast
  show ?thesis
    using animate_particle [OF c assms, of env] by (auto simp: same_but_position_def)
next
  case False
  then have "animate env st = st"
    by (auto simp: animate_def split: option.splits)
  then show ?thesis by simp
qed

text \<open>
  Claim C7. The origin of a foreground particle is fixed by its creation. No frame changes
  it: after \<open>animate\<close> (mouse repulsion, scroll wind, spring force, collision checks and
  integration) the particles carry the same \<open>originX\<close> and \<open>originY\<close>, in the same
  order. The mouse handlers do not touch the particle list. The only remaining operation
  of the component is the resize handler, which replaces the whole list by particles it
  creates at rest on their origins.
\<close>

theorem origin_fixed:
  "map originX (particlesRef (animate env st)) = map originX (particlesRef st)
   \<and> map originY (particlesRef (animate env st)) = map originY (particlesRef st)
   \<and> particlesRef (handleGlobalMouseMove clientX clientY st) = particlesRef st
   \<and> particlesRef (handleGlobalMouseLeave st) = particlesRef st
   \<and> originX (new_particle w h rnd i) = p_x (new_particle w h rnd i)
   \<and> originY (new_particle w h rnd i) = p_y (new_particle w h rnd i)"
  by (simp add: list_eq_iff_nth_eq animate_origin handleGlobalMouseMove_def
        handleGlobalMouseLeave_def new_particle_def Let_def)

text \<open>Two particles that overlap at rest next to the pointer, and a third one far away.\<close>

definition crowded_state :: Sim where
  "crowded_state = example_state
     \<lparr>particlesRef :=
        [\<lparr>p_x = Fin 300, p_y = Fin 300, originX = Fin 300, originY = Fin 300, p_vx = Fin 0,
          p_vy = Fin 0, p_size = Fin 1, color = ''#ffffff'', angle = Fin 0\<rparr>,
         \<lparr>p_x = Fin 10, p_y = Fin 10, originX = Fin 10, originY = Fin 10, p_vx = Fin 0,
          p_vy = Fin 0, p_size = Fin 2, color = ''#ffffff'', angle = Fin 0\<rparr>,
         \<lparr>p_x = Fin 11, p_y = Fin 10, originX = Fin 11, originY = Fin 10, p_vx = Fin 0,
          p_vy = Fin 0, p_size = Fin 2, color = ''#4285F4'', angle = Fin 0\<rparr>],
      mouseRef := \<lparr>m_x = Fin 10, m_y = Fin 10, isActive = True\<rparr>\<rparr>"

theorem origin_fixed_witness:
  "map originX (particlesRef (animate example_env crowded_state)) = [Fin 300, Fin 10, Fin 11]
   \<and> map originY (particlesRef (animate example_env crowded_state)) = [Fin 300, Fin 10, Fin 10]"
  using origin_fixed [of example_env crowded_state]
  by (simp add: crowded_state_def example_state_def)

section \<open>The pointer on a particle\<close>

lemma fl_zero [simp]: "fl 0 = Fin 0"
  by (simp add: fl_def)

lemma minus_self: "Fin a - Fin a = Fin 0"
  by (simp add: minus_Fin)

lemma plus_NaN [simp]: "a + NaN = NaN" "NaN + a = NaN"
  by (cases a; simp)+

lemma minus_NaN [simp]: "a - NaN = NaN" "NaN - a = NaN"
  by (simp_all add: minus_number_def)

lemma times_NaN [simp]: "a * NaN = NaN" "NaN * a = NaN"
  by (cases a; simp)+

lemma mouse_interaction_on_particle:
  assumes "isActive mouse" and "p_x p = Fin a" and "p_y p = Fin b"
    and "m_x mouse = Fin a" and "m_y mouse = Fin b"
  shows "p_vx (mouse_interaction mouse p) = NaN \<and> p_vy (mouse_interaction mouse p) = NaN"
proof -
  have d: "Math_sqrt (Fin 0 * Fin 0 + Fin 0 * Fin 0) = Fin 0"
    by (simp add: times_Fin plus_Fin sqrt_Fin)
  have dx: "m_x mouse - p_x p = Fin 0" "m_y mouse - p_y p = Fin 0"
    using assms by (simp_all add: minus_self)
  have z: "Fin 0 / Fin 0 = NaN"
    by (simp add: divide_Fin)
  show ?thesis
    using assms(1) by (simp add: mouse_interaction_def Let_def d dx z MOUSE_RADIUS_def)
qed

lemma apply_forces_NaN:
  assumes "p_vx (mouse_interaction mouse p) = NaN \<and> p_vy (mouse_interaction mouse p) = NaN"
  shows "p_vx (apply_forces mouse sf p) = NaN \<and> p_vy (apply_forces mouse sf p) = NaN"
  using assms by (simp add: apply_forces_def spring_force_def scroll_interaction_def Let_def)

lemma integrate_NaN:
  assumes "p_vx q = NaN" and "p_vy q = NaN"
  shows "p_vx (integrate q) = NaN \<and> p_vy (integrate q) = NaN
       \<and> p_x (integrate q) = NaN \<and> p_y (integrate q) = NaN"
  using assms by (simp add: integrate_def Let_def)

lemma guard_value: "lit (1 / 100) = Fin (5764607523034235 / 576460752303423488)"
  by code_simp

lemma collide_same_position:
  assumes "p_x p1 = Fin a" and "p_y p1 = Fin b" and "p_x p2 = Fin a" and "p_y p2 = Fin b"
  shows "collide p1 p2 = (p1, p2)"
  using assms
  by (simp add: collide_def Let_def minus_self times_Fin plus_Fin sqrt_Fin guard_value)

text \<open>
  Claim C10. The mouse repulsion is not numerically safe. When the pointer is active and
  lies exactly on a foreground particle (finite coordinates), the distance is \<open>0\<close>, which
  is below the mouse radius, and the force direction is \<open>0 / 0 = NaN\<close>: no guard stands
  before the division. The NaN enters the particle's velocity and, with the integration of
  the same frame, its position. The collision check has such a guard: two particles at the
  same position are at distance \<open>0\<close>, which is not above \<open>0.01\<close>, and are left as they are.
\<close>

theorem pointer_on_particle:
  assumes "canvasRef st = Some canvas" and "has_ctx canvas"
    and "k < length (particlesRef st)"
    and "isActive (mouseRef st)"
    and "p_x (particlesRef st ! k) = Fin a" and "p_y (particlesRef st ! k) = Fin b"
    and "m_x (mouseRef st) = Fin a" and "m_y (mouseRef st) = Fin b"
    and "p_x p1 = Fin c" and "p_y p1 = Fin d" and "p_x p2 = Fin c" and "p_y p2 = Fin d"
  shows "p_vx (mouse_interaction (mouseRef st) (particlesRef st ! k)) = NaN
       \<and> p_vy (mouse_interaction (mouseRef st) (particlesRef st ! k)) = NaN
       \<and> p_vx (particlesRef (animate env st) ! k) = NaN
       \<and> p_vy (particlesRef (animate env st) ! k) = NaN
       \<and> p_x (particlesRef (animate env st) ! k) = NaN
       \<and> p_y (particlesRef (animate env st) ! k) = NaN
       \<and> collide p1 p2 = (p1, p2)"
proof -
  let ?sf = "scrollForce_of (case scrollRef env of None \<Rightarrow> Fin 0
     | Some currentScroll \<Rightarrow> currentScroll - lastScrollTopRef st)"
  have m: "p_vx (mouse_interaction (mouseRef st) (particlesRef st ! k)) = NaN
      \<and> p_vy (mouse_interaction (mouseRef st) (particlesRef st ! k)) = NaN"
    using assms(4-8) by (rule mouse_interaction_on_particle)
  then have f: "p_vx (apply_forces (mouseRef st) ?sf (particlesRef st ! k)) = NaN
      \<and> p_vy (apply_forces (mouseRef st) ?sf (particlesRef st ! k)) = NaN"
    by (rule apply_forces_NaN)
  obtain q where q: "same_but_position (apply_forces (mouseRef st) ?sf (particlesRef st ! k)) q"
      "particlesRef (animate env st) ! k = integrate q"
    using animate_particle [OF assms(1-3), of env] by blast
  have "p_vx q = NaN" "p_vy q = NaN"
    using q(1) f by (simp_all add: same_but_position_def)
  then have "p_vx (integrate q) = NaN \<and> p_vy (integrate q) = NaN
       \<and> p_x (integrate q) = NaN \<and> p_y (integrate q) = NaN"
    by (rule integrate_NaN)
  then show ?thesis
    using m q(2) collide_same_position [OF assms(9-12)] by simp
qed

theorem pointer_on_particle_witness:
  "p_vx (particlesRef (animate example_env crowded_state) ! 1) = NaN
   \<and> p_vy (particlesRef (animate example_env crowded_state) ! 1) = NaN
   \<and> p_x (particlesRef (animate example_env crowded_state) ! 1) = NaN
   \<and> p_y (particlesRef (animate example_env crowded_state) ! 1) = NaN"
proof -
  have c: "canvasRef crowded_state = Some example_canvas" "has_ctx example_canvas"
    "1 < length (particlesRef crowded_state)" "isActive (mouseRef crowded_state)"
    "p_x (particlesRef crowded_state ! 1) = Fin 10" "p_y (particlesRef crowded_state ! 1) = Fin 10"
    "m_x (mouseRef crowded_state) = Fin 10" "m_y (mouseRef crowded_state) = Fin 10"
    by (simp_all add: crowded_state_def example_state_def example_canvas_def)
  show ?thesis
    using pointer_on_particle [OF c, of "particlesRef crowded_state ! 1" 10 10
        "particlesRef crowded_state ! 1" example_env] c(5,6)
    by simp
qed

section \<open>Which pairs the collision pass checks\<close>



text \<open>The test of the source for an overlap of two particles.\<close>

definition overlap :: "Particle \<Rightarrow> Particle \<Rightarrow> bool" where
  "overlap p1 p2 =
     (let dx = p_x p2 - p_x p1;
          dy = p_y p2 - p_y p1;
          distSq = dx * dx + dy * dy;
          minDist = p_size p1 + p_size p2
      in distSq < minDist * minDist)"






text \<open>Two overlapping particles of radius 2 at distance 1, at rest on their origins.\<close>

definition close_pair :: "Particle list" where
  "close_pair =
     [\<lparr>p_x = Fin 10, p_y = Fin 10, originX = Fin 10, originY = Fin 10, p_vx = Fin 0,
       p_vy = Fin 0, p_size = Fin 2, color = ''#ffffff'', angle = Fin 0\<rparr>,
      \<lparr>p_x = Fin 11, p_y = Fin 10, originX = Fin 11, originY = Fin 10, p_vx = Fin 0,
       p_vy = Fin 0, p_size = Fin 2, color = ''#4285F4'', angle = Fin 0\<rparr>]"


section \<open>Properties of rounding\<close>

lemma pow2_pos [simp]: "0 < pow2 e"
  by (simp add: pow2_def)

lemma pow2_powi: "pow2 e = 2 powi e"
  by (simp add: pow2_def power_int_def inverse_eq_divide power_one_over)

lemma pow2_add: "pow2 (a + b) = pow2 a * pow2 b"
  by (simp add: pow2_powi power_int_add)

lemma pow2_0 [simp]: "pow2 0 = 1"
  by (simp add: pow2_def)

lemma pow2_nat: "0 \<le> e \<Longrightarrow> pow2 e = 2 ^ nat e"
  by (simp add: pow2_def)

lemma pow2_mono: "a \<le> b \<Longrightarrow> pow2 a \<le> pow2 b"
  by (simp add: pow2_powi power_int_increasing)


lemma ilog2_bounds:
  assumes "0 < q"
  shows "pow2 (ilog2 q) \<le> q \<and> q < pow2 (ilog2 q + 1)"
proof -
  obtain n d where nd: "quotient_of q = (n, d)"
    by (cases "quotient_of q")
  have d: "0 < d"
    using nd by (rule quotient_of_denom_pos)
  have q: "q = of_int n / of_int d"
    using nd by (rule quotient_of_div)
  have n: "0 < n"
    using assms d q by (simp add: zero_less_divide_iff)
  define k where "k = bitlen n - bitlen d"
  have bn: "2 ^ nat (bitlen n - 1) \<le> n" "n < 2 ^ nat (bitlen n)"
    using bitlen_bounds [OF n] by simp_all
  have bd: "2 ^ nat (bitlen d - 1) \<le> d" "d < 2 ^ nat (bitlen d)"
    using bitlen_bounds [OF d] by simp_all
  have pn: "1 \<le> bitlen n" and pd: "1 \<le> bitlen d"
    using n d by (simp_all add: bitlen_alt_def)
  have rn: "pow2 (bitlen n - 1) \<le> of_int n" "of_int n < pow2 (bitlen n)"
    using bn pn by (simp_all add: pow2_def)
  have rd: "pow2 (bitlen d - 1) \<le> of_int d" "of_int d < pow2 (bitlen d)"
    using bd pd by (simp_all add: pow2_def)
  have upper: "q < pow2 (k + 1)"
  proof -
    have "of_int n < pow2 (bitlen n)" by (rule rn)
    also have "\<dots> = pow2 (k + 1) * pow2 (bitlen d - 1)"
      by (simp add: k_def flip: pow2_add)
    also have "\<dots> \<le> pow2 (k + 1) * of_int d"
      using rd(1) by (simp add: mult_left_mono less_imp_le)
    finally show ?thesis
      using d by (simp add: q pos_divide_less_eq)
  qed
  have lower: "pow2 (k - 1) \<le> q"
  proof -
    have "pow2 (k - 1) * of_int d \<le> pow2 (k - 1) * pow2 (bitlen d)"
      using rd(2) by (simp add: mult_left_mono less_imp_le)
    also have "\<dots> = pow2 (bitlen n - 1)"
      by (simp add: k_def flip: pow2_add)
    also have "\<dots> \<le> of_int n" by (rule rn)
    finally show ?thesis
      using d by (simp add: q pos_le_divide_eq)
  qed
  show ?thesis
    using upper lower by (auto simp: ilog2_def nd k_def Let_def not_le)
qed

lemma pow2_less_cancel: "pow2 a < pow2 b \<Longrightarrow> a < b"
  using pow2_mono [of b a] by (cases "a < b") simp_all

lemma round_half_even_of_int [simp]: "round_half_even (of_int n) = n"
  by (simp add: round_half_even_def)

lemma round_half_even_nonneg: "0 \<le> v \<Longrightarrow> 0 \<le> round_half_even v"
  by (auto simp: round_half_even_def Let_def)

lemma round_half_even_le: "v \<le> of_int n \<Longrightarrow> round_half_even v \<le> n"
proof -
  assume v: "v \<le> of_int n"
  then have f: "\<lfloor>v\<rfloor> \<le> n"
    by (simp add: floor_le_iff)
  show ?thesis
  proof (cases "of_int \<lfloor>v\<rfloor> = v")
    case True
    then have "round_half_even v = \<lfloor>v\<rfloor>"
      by (metis round_half_even_of_int)
    then show ?thesis
      using f by simp
  next
    case False
    then have "of_int \<lfloor>v\<rfloor> < v"
      by (simp add: less_le)
    then have "of_int \<lfloor>v\<rfloor> < (of_int n :: rat)"
      using v by simp
    then have "\<lfloor>v\<rfloor> + 1 \<le> n"
      by simp
    then show ?thesis
      by (auto simp: round_half_even_def Let_def)
  qed
qed

text \<open>
  For a positive \<open>q\<close>, \<open>fl q\<close> is the multiple \<open>m * 2^e\<close> described above; the test for an
  overflow compares \<open>m * 2^e\<close> with \<open>2^1024\<close>.
\<close>

lemma overflow_iff:
  assumes "0 < m"
  shows "1024 < bitlen m + e \<longleftrightarrow> pow2 1024 \<le> of_int m * pow2 e"
proof
  assume "1024 < bitlen m + e"
  then have "1024 \<le> bitlen m - 1 + e"
    by simp
  then have "pow2 1024 \<le> pow2 (bitlen m - 1 + e)"
    by (rule pow2_mono)
  also have "\<dots> = pow2 (bitlen m - 1) * pow2 e"
    by (rule pow2_add)
  also have "\<dots> \<le> of_int m * pow2 e"
  proof -
    have "1 \<le> bitlen m"
      using assms by (simp add: bitlen_alt_def)
    then have "pow2 (bitlen m - 1) \<le> of_int m"
      using bitlen_bounds [OF assms] by (simp add: pow2_def)
    then show ?thesis
      by (simp add: mult_right_mono less_imp_le)
  qed
  finally show "pow2 1024 \<le> of_int m * pow2 e" .
next
  assume a: "pow2 1024 \<le> of_int m * pow2 e"
  have "of_int m < pow2 (bitlen m)"
    using bitlen_bounds [OF assms] bitlen_nonneg [of m] by (simp add: pow2_def)
  then have "of_int m * pow2 e < pow2 (bitlen m) * pow2 e"
    by (simp add: mult_strict_right_mono)
  with a have "pow2 1024 < pow2 (bitlen m) * pow2 e"
    by (rule le_less_trans)
  then have "pow2 1024 < pow2 (bitlen m + e)"
    by (simp add: pow2_add)
  then show "1024 < bitlen m + e"
    by (rule pow2_less_cancel)
qed

lemma fl_nonneg:
  assumes "0 \<le> q"
  shows "fl q = PosInf \<or> (\<exists>r. 0 \<le> r \<and> fl q = Fin r)"
proof (cases "q = 0")
  case True
  then show ?thesis by (simp add: fl_def)
next
  case False
  then have q: "0 < q"
    using assms by simp
  have "0 \<le> round_half_even (\<bar>q\<bar> / pow2 e)" for e
    by (rule round_half_even_nonneg) (simp add: less_imp_le)
  then have "0 \<le> rat_of_int (round_half_even (\<bar>q\<bar> / pow2 e)) * pow2 e" for e
    by (simp add: less_imp_le)
  then show ?thesis
    using q by (auto simp: fl_def Let_def)
qed


section \<open>The number of particles\<close>









section \<open>Numbers of the format, and the monotonicity of rounding\<close>

text \<open>
  \<open>is_double v\<close>: the number \<open>v\<close> is a value of the binary64 format, that is, rounding
  leaves it as it is. Every result of an arithmetic operation is one; the hypothesis
  matters for the numbers a theorem starts from.
\<close>

definition is_double :: "number \<Rightarrow> bool" where
  "is_double v = (case v of Fin q \<Rightarrow> fl q = Fin q | _ \<Rightarrow> True)"

lemma pow2_nonzero [simp]: "pow2 e \<noteq> 0"
  using pow2_pos [of e] by (simp only: less_le) simp

lemma fl_neg: "fl (- q) = - fl q"
  by (auto simp: fl_def Let_def)

lemma is_double_neg: "is_double (Fin q) \<Longrightarrow> is_double (Fin (- q))"
  by (simp add: is_double_def fl_neg)

lemma is_double_abs: "is_double (Fin q) \<Longrightarrow> is_double (Fin \<bar>q\<bar>)"
  by (simp add: abs_if is_double_neg)

lemma ilog2_mono:
  assumes "0 < q" and "q \<le> b"
  shows "ilog2 q \<le> ilog2 b"
proof -
  have b: "0 < b"
    using assms by simp
  have "pow2 (ilog2 q) \<le> q"
    using ilog2_bounds [OF assms(1)] by simp
  also have "q \<le> b" by fact
  also have "b < pow2 (ilog2 b + 1)"
    using ilog2_bounds [OF b] by simp
  finally have "ilog2 q < ilog2 b + 1"
    by (rule pow2_less_cancel)
  then show ?thesis by simp
qed

text \<open>A positive number of the format is \<open>m * 2^e\<close> for its exponent \<open>e\<close>, below \<open>2^1024\<close>.\<close>

lemma double_repr:
  assumes "0 < b" and "fl b = Fin b"
  shows "\<exists>m. 0 < m \<and> b = of_int m * pow2 (max (ilog2 b - 52) (- 1074))
           \<and> of_int m * pow2 (max (ilog2 b - 52) (- 1074)) < pow2 1024"
proof -
  define e where "e = max (ilog2 b - 52) (- 1074)"
  define m where "m = round_half_even (b / pow2 e)"
  have f: "fl b = (if 1024 < bitlen m + e then PosInf else Fin (of_int m * pow2 e))"
    using assms(1) by (simp add: fl_def Let_def e_def m_def)
  then have no: "\<not> 1024 < bitlen m + e" and b: "b = of_int m * pow2 e"
    using assms(2) by (auto split: if_splits)
  have m: "0 < m"
  proof (rule ccontr)
    assume "\<not> 0 < m"
    then have "of_int m * pow2 e \<le> 0"
      by (simp add: mult_le_0_iff less_imp_le)
    then show False
      using assms(1) b by simp
  qed
  have "of_int m * pow2 e < pow2 1024"
    using no overflow_iff [OF m, of e] by simp
  then show ?thesis
    using m b unfolding e_def by blast
qed

text \<open>
  Rounding is monotonic against the numbers of the format: a positive \<open>q\<close> below such a
  number \<open>b\<close> rounds to a number between \<open>0\<close> and \<open>b\<close>.
\<close>

lemma fl_le:
  assumes "0 < q" and "q \<le> b" and "fl b = Fin b"
  shows "\<exists>r. fl q = Fin r \<and> 0 \<le> r \<and> r \<le> b"
proof -
  have b0: "0 < b"
    using assms by simp
  define eq where "eq = max (ilog2 q - 52) (- 1074)"
  define eb where "eb = max (ilog2 b - 52) (- 1074)"
  have ee: "eq \<le> eb"
    using ilog2_mono [OF assms(1,2)] by (simp add: eq_def eb_def)
  obtain mb where mb: "0 < mb" "b = of_int mb * pow2 eb" "of_int mb * pow2 eb < pow2 1024"
    using double_repr [OF b0 assms(3)] unfolding eb_def by blast
  define M where "M = mb * 2 ^ nat (eb - eq)"
  have "pow2 eb = pow2 (eb - eq) * pow2 eq"
    by (simp flip: pow2_add)
  also have "pow2 (eb - eq) = of_int (2 ^ nat (eb - eq))"
    using ee by (simp add: pow2_def)
  finally have bM: "b = of_int M * pow2 eq"
    by (simp add: mb(2) M_def)
  define m where "m = round_half_even (q / pow2 eq)"
  have "q / pow2 eq \<le> b / pow2 eq"
    using assms(2) by (simp add: divide_right_mono less_imp_le)
  also have "\<dots> = of_int M"
    by (simp add: bM)
  finally have mM: "m \<le> M"
    unfolding m_def by (rule round_half_even_le)
  have m0: "0 \<le> m"
    unfolding m_def by (rule round_half_even_nonneg) (simp add: assms(1) less_imp_le)
  have rb: "of_int m * pow2 eq \<le> b"
    using mM by (simp add: bM mult_right_mono less_imp_le)
  have no: "\<not> 1024 < bitlen m + eq"
  proof (cases "m = 0")
    case True
    have "pow2 eb \<le> of_int mb * pow2 eb"
      using mb(1) by simp
    from this mb(3) have "pow2 eb < pow2 1024"
      by (rule le_less_trans)
    then have "eb < 1024"
      by (rule pow2_less_cancel)
    then show ?thesis
      using True ee by simp
  next
    case False
    then have "0 < m"
      using m0 by simp
    moreover have "of_int m * pow2 eq < pow2 1024"
      using rb mb(2,3) by simp
    ultimately show ?thesis
      using overflow_iff [of m eq] by simp
  qed
  have "fl q = Fin (of_int m * pow2 eq)"
    using assms(1) no by (simp add: fl_def Let_def eq_def m_def)
  moreover have "0 \<le> rat_of_int m * pow2 eq"
    using m0 by (simp add: less_imp_le)
  ultimately show ?thesis
    using rb by blast
qed

text \<open>Multiplying a number of the format by a factor in \<open>[0, 1]\<close> does not enlarge it.\<close>

lemma scale_le:
  assumes "is_double (Fin u)" and "0 \<le> c" and "c \<le> 1"
  shows "\<exists>u'. Fin u * Fin c = Fin u' \<and> \<bar>u'\<bar> \<le> \<bar>u\<bar> \<and> (0 \<le> u \<longrightarrow> 0 \<le> u') \<and> (u \<le> 0 \<longrightarrow> u' \<le> 0)"
proof (cases "u * c = 0")
  case True
  then show ?thesis
    by (auto simp: times_Fin)
next
  case False
  then have c: "0 < c" and u: "u \<noteq> 0"
    using assms(2) by auto
  have a: "fl \<bar>u\<bar> = Fin \<bar>u\<bar>"
    using is_double_abs [OF assms(1)] by (simp add: is_double_def)
  have "0 < \<bar>u\<bar> * c"
    using c u by simp
  moreover have "\<bar>u\<bar> * c \<le> \<bar>u\<bar>"
    using assms(3) by (simp add: mult_left_le)
  ultimately obtain r where r: "fl (\<bar>u\<bar> * c) = Fin r" "0 \<le> r" "r \<le> \<bar>u\<bar>"
    using fl_le [OF _ _ a] by blast
  show ?thesis
  proof (cases "0 < u")
    case True
    then show ?thesis
      using r by (auto simp: times_Fin)
  next
    case False
    then have "u * c = - (\<bar>u\<bar> * c)"
      by simp
    then have "fl (u * c) = Fin (- r)"
      using r(1) by (simp only: fl_neg) simp
    then show ?thesis
      using r False by (auto simp: times_Fin)
  qed
qed

section \<open>Evaluation of arithmetic on numerals\<close>

text \<open>
  Rules with which the simplifier evaluates the rounding of a rational numeral: the
  exponent by halving and doubling, the floor by integer division.
\<close>

lemma ilog2_unique:
  assumes "pow2 k \<le> q" and "q < pow2 (k + 1)"
  shows "ilog2 q = k"
proof -
  have q: "0 < q"
    using pow2_pos assms(1) by (rule less_le_trans)
  have b: "pow2 (ilog2 q) \<le> q" "q < pow2 (ilog2 q + 1)"
    using ilog2_bounds [OF q] by simp_all
  have "pow2 k < pow2 (ilog2 q + 1)"
    using assms(1) b(2) by simp
  then have "k < ilog2 q + 1"
    by (rule pow2_less_cancel)
  moreover have "pow2 (ilog2 q) < pow2 (k + 1)"
    using assms(2) b(1) by simp
  then have "ilog2 q < k + 1"
    by (rule pow2_less_cancel)
  ultimately show ?thesis by simp
qed

lemma pow2_1 [simp]: "pow2 1 = 2"
  by (simp add: pow2_def)

lemma ilog2_rec:
  "0 < q \<Longrightarrow> ilog2 q =
     (if 2 \<le> q then ilog2 (q / 2) + 1 else if q < 1 then ilog2 (q * 2) - 1 else 0)"
proof -
  assume q: "0 < q"
  have s: "pow2 (j + 1) = pow2 j * 2" for j
    by (simp add: pow2_add)
  show ?thesis
  proof (cases "2 \<le> q")
    case True
    have h: "0 < q / 2" using q by simp
    have "pow2 (ilog2 (q / 2) + 1) \<le> q" "q < pow2 (ilog2 (q / 2) + 1 + 1)"
      using ilog2_bounds [OF h] unfolding s by simp_all
    then show ?thesis
      using True ilog2_unique by simp
  next
    case False
    note nf = this
    show ?thesis
    proof (cases "q < 1")
      case True
      have h: "0 < q * 2" using q by simp
      have "pow2 (ilog2 (q * 2) - 1) * 2 = pow2 (ilog2 (q * 2))"
        using s [of "ilog2 (q * 2) - 1"] by simp
      then have "pow2 (ilog2 (q * 2) - 1) \<le> q" "q < pow2 (ilog2 (q * 2) - 1 + 1)"
        using ilog2_bounds [OF h] unfolding s by simp_all
      then show ?thesis
        using True nf ilog2_unique by simp
    next
      case False
      then have "pow2 0 \<le> q" "q < pow2 (0 + 1)"
        using nf by simp_all
      then have "ilog2 q = 0"
        by (rule ilog2_unique)
      then show ?thesis
        using False nf by simp
    qed
  qed
qed

lemma floor_rat_numeral: "\<lfloor>numeral a / numeral b :: rat\<rfloor> = numeral a div numeral b"
  using floor_divide_of_int_eq [of "numeral a" "numeral b", where ?'a = rat] by simp

lemmas arith_eval = fl_def Let_def ilog2_rec round_half_even_def floor_rat_numeral
  compute_bitlen pow2_def plus_Fin times_Fin minus_Fin divide_Fin

section \<open>Damping\<close>

text \<open>The speed of a particle, as the frame computes it for the opacity.\<close>

definition speed :: "Particle \<Rightarrow> number" where
  "speed p = Math_sqrt (p_vx p * p_vx p + p_vy p * p_vy p)"

text \<open>\<open>frames n env st\<close>: the state after \<open>n\<close> successive frames with the same surroundings.\<close>

primrec frames :: "nat \<Rightarrow> Env \<Rightarrow> Sim \<Rightarrow> Sim" where
  "frames 0 env st = st"
| "frames (Suc n) env st = animate env (frames n env st)"

lemma animate_keeps [simp]:
  "canvasRef (animate env st) = canvasRef st" "mouseRef (animate env st) = mouseRef st"
  by (auto simp: animate_def Let_def scroll_sample_def fps_update_def split_beta
           split: option.splits)

lemma frames_keeps [simp]:
  "canvasRef (frames n env st) = canvasRef st" "mouseRef (frames n env st) = mouseRef st"
  by (induction n) simp_all

lemma constants:
  "DAMPING = Fin (8286623314361713 / 9007199254740992)"
  "RETURN_SPEED = Fin (3602879701896397 / 72057594037927936)"
  "scrollForce_of (Fin 0) = Fin 0"
  by code_simp+

lemma mouse_inactive: "\<not> isActive mouse \<Longrightarrow> mouse_interaction mouse p = p"
  by (simp add: mouse_interaction_def Let_def)

lemma integrate_velocity:
  "p_vx (integrate q) = p_vx q * DAMPING" "p_vy (integrate q) = p_vy q * DAMPING"
  by (simp_all add: integrate_def Let_def)

lemma animate_single:
  assumes "canvasRef st = Some canvas" and "has_ctx canvas" and "particlesRef st = [p]"
    and "scrollRef env = None" and "\<not> isActive (mouseRef st)"
  shows "particlesRef (animate env st) =
     [integrate (spring_force (scroll_interaction (Fin 0) p))]"
proof -
  obtain rgb calls where "particlesRef (animate env st) =
     fst (collision_loop rgb (Math_random env) 0
       [apply_forces (mouseRef st) (scrollForce_of (Fin 0)) p] calls)"
    using animate_particles [OF assms(1,2), of env] assms(3,4) by auto
  moreover have "collide_from 0 (Suc 0) [q] = [q]" for q
    by (subst collide_from.simps) simp
  ultimately show ?thesis
    using assms(5)
    by (simp add: collision_loop.simps [of _ _ 0] collision_loop.simps [of _ _ "Suc 0"]
          collision_step_def Let_def apply_forces_def mouse_inactive constants)
qed

text \<open>
  A single particle on its origin with velocity \<open>(1, 0)\<close>; the pointer is inactive and
  there is no scroll container. \<open>moving_particle k\<close> is the particle after \<open>k\<close> frames.
\<close>

definition still_env :: Env where
  "still_env = example_env\<lparr>scrollRef := None\<rparr>"

definition moving_particle :: "nat \<Rightarrow> Particle" where
  "moving_particle k =
     [\<lparr>p_x = Fin 100,
       p_y = Fin 100,
       originX = Fin 100, originY = Fin 100,
       p_vx = Fin 1,
       p_vy = Fin 0,
       p_size = Fin (3 / 2), color = ''#ffffff'', angle = Fin 0\<rparr>,
      \<lparr>p_x = Fin (7101613662409851 / 70368744177664),
       p_y = Fin 100,
       originX = Fin 100, originY = Fin 100,
       p_vx = Fin (8286623314361713 / 9007199254740992),
       p_vy = Fin 0,
       p_size = Fin (3 / 2), color = ''#ffffff'', angle = Fin 0\<rparr>,
      \<lparr>p_x = Fin (7158195762228227 / 70368744177664),
       p_y = Fin 100,
       originX = Fin 100, originY = Fin 100,
       p_vx = Fin (7242508776752137 / 9007199254740992),
       p_vy = Fin 0,
       p_size = Fin (3 / 2), color = ''#ffffff'', angle = Fin 0\<rparr>,
      \<lparr>p_x = Fin (7204670512215889 / 70368744177664),
       p_y = Fin 100,
       originX = Fin 100, originY = Fin 100,
       p_vx = Fin (5948767998420729 / 9007199254740992),
       p_vy = Fin 0,
       p_size = Fin (3 / 2), color = ''#ffffff'', angle = Fin 0\<rparr>,
      \<lparr>p_x = Fin (7239708661859861 / 70368744177664),
       p_y = Fin 100,
       originX = Fin 100, originY = Fin 100,
       p_vx = Fin (8969766308856959 / 18014398509481984),
       p_vy = Fin 0,
       p_size = Fin (3 / 2), color = ''#ffffff'', angle = Fin 0\<rparr>,
      \<lparr>p_x = Fin (453913336519001 / 4398046511104),
       p_y = Fin 100,
       originX = Fin 100, originY = Fin 100,
       p_vx = Fin (2931804472851903 / 9007199254740992),
       p_vy = Fin 0,
       p_size = Fin (3 / 2), color = ''#ffffff'', angle = Fin 0\<rparr>,
      \<lparr>p_x = Fin (7273301736491909 / 70368744177664),
       p_y = Fin 100,
       originX = Fin 100, originY = Fin 100,
       p_vx = Fin (5472436320201071 / 36028797018963968),
       p_vy = Fin 0,
       p_size = Fin (3 / 2), color = ''#ffffff'', angle = Fin 0\<rparr>,
      \<lparr>p_x = Fin (7272259363843397 / 70368744177664),
       p_y = Fin 100,
       originX = Fin 100, originY = Fin 100,
       p_vx = Fin (-2134779184152813 / 144115188075855872),
       p_vy = Fin 0,
       p_size = Fin (3 / 2), color = ''#ffffff'', angle = Fin 0\<rparr>,
      \<lparr>p_x = Fin (907559084185903 / 8796093022208),
       p_y = Fin 100,
       originX = Fin 100, originY = Fin 100,
       p_vx = Fin (-6034785462360581 / 36028797018963968),
       p_vy = Fin 0,
       p_size = Fin (3 / 2), color = ''#ffffff'', angle = Fin 0\<rparr>] ! k"

definition moving_state :: Sim where
  "moving_state = example_state\<lparr>particlesRef := [moving_particle 0]\<rparr>"

lemma moving_particle_step:
  "integrate (spring_force (scroll_interaction (Fin 0) (moving_particle 0))) = moving_particle 1"
  "integrate (spring_force (scroll_interaction (Fin 0) (moving_particle 1))) = moving_particle 2"
  "integrate (spring_force (scroll_interaction (Fin 0) (moving_particle 2))) = moving_particle 3"
  "integrate (spring_force (scroll_interaction (Fin 0) (moving_particle 3))) = moving_particle 4"
  "integrate (spring_force (scroll_interaction (Fin 0) (moving_particle 4))) = moving_particle 5"
  "integrate (spring_force (scroll_interaction (Fin 0) (moving_particle 5))) = moving_particle 6"
  "integrate (spring_force (scroll_interaction (Fin 0) (moving_particle 6))) = moving_particle 7"
  "integrate (spring_force (scroll_interaction (Fin 0) (moving_particle 7))) = moving_particle 8"
  by (simp_all add: moving_particle_def integrate_def spring_force_def scroll_interaction_def
        constants arith_eval)

lemma moving_frames:
  "k \<le> 8 \<Longrightarrow> particlesRef (frames k still_env moving_state) = [moving_particle k]"
proof (induction k)
  case 0
  then show ?case by (simp add: moving_state_def)
next
  case (Suc k)
  then have ps: "particlesRef (frames k still_env moving_state) = [moving_particle k]"
    by simp
  have c: "canvasRef (frames k still_env moving_state) = Some example_canvas"
    "has_ctx example_canvas" "scrollRef still_env = None"
    "\<not> isActive (mouseRef (frames k still_env moving_state))"
    by (simp_all add: moving_state_def example_state_def example_canvas_def still_env_def)
  have "k = 0 \<or> k = 1 \<or> k = 2 \<or> k = 3 \<or> k = 4 \<or> k = 5 \<or> k = 6 \<or> k = 7"
    using Suc.prems by arith
  then have "integrate (spring_force (scroll_interaction (Fin 0) (moving_particle k)))
      = moving_particle (Suc k)"
    using moving_particle_step by (auto simp: eval_nat_numeral)
  then show ?case
    using animate_single [OF c(1,2) ps c(3,4)] by simp
qed

lemma moving_speeds:
  "speed (moving_particle 7) = Fin (2134779184152813 / 144115188075855872)"
  "speed (moving_particle 8) = Fin (6034785462360581 / 36028797018963968)"
proof -
  have "p_vx (moving_particle 7) * p_vx (moving_particle 7)
      + p_vy (moving_particle 7) * p_vy (moving_particle 7)
      = Fin (4047679671519111 / 18446744073709551616)"
    "p_vx (moving_particle 8) * p_vx (moving_particle 8)
      + p_vy (moving_particle 8) * p_vy (moving_particle 8)
      = Fin (4043280774270587 / 144115188075855872)"
    by (simp_all add: moving_particle_def arith_eval)
  moreover have "Math_sqrt (Fin (4047679671519111 / 18446744073709551616))
      = Fin (2134779184152813 / 144115188075855872)"
    "Math_sqrt (Fin (4043280774270587 / 144115188075855872))
      = Fin (6034785462360581 / 36028797018963968)"
    by code_simp+
  ultimately show "speed (moving_particle 7) = Fin (2134779184152813 / 144115188075855872)"
    "speed (moving_particle 8) = Fin (6034785462360581 / 36028797018963968)"
    by (simp_all add: speed_def)
qed

text \<open>
  Over successive frames the speed is not monotonic. The particle starts on its origin with
  no force on it (pointer inactive, no scroll, no other particle), but the first frame
  moves it off its origin and from then on the spring force acts: after the eighth frame
  the particle is faster than after the seventh.
\<close>

theorem speed_counterexample:
  "speed (hd (particlesRef (frames 7 still_env moving_state)))
     < speed (hd (particlesRef (frames 8 still_env moving_state)))"
  by (simp add: moving_frames moving_speeds)

lemma not_active_forces:
  assumes "\<not> isActive mouse" and "p_x p = originX p" and "p_y p = originY p"
    and "p_x p = Fin a" and "p_y p = Fin b" and "p_vx p = Fin u" and "p_vy p = Fin v"
    and "is_double (Fin u)" and "is_double (Fin v)"
  shows "p_vx (apply_forces mouse (Fin 0) p) = Fin u \<and> p_vy (apply_forces mouse (Fin 0) p) = Fin v"
proof -
  have z: "Fin a - Fin a = Fin 0" "Fin b - Fin b = Fin 0" "Fin 0 * RETURN_SPEED = Fin 0"
    by (simp_all add: minus_self constants times_Fin)
  have d: "Fin u + Fin 0 = Fin u" "Fin v + Fin 0 = Fin v"
    using assms(8,9) by (simp_all add: plus_Fin is_double_def)
  show ?thesis
    using assms(1-7)
    by (simp add: apply_forces_def mouse_inactive scroll_interaction_def spring_force_def
          Let_def z d flip: assms(2,3))
qed

text \<open>
  Claim C5, amended. In every frame the velocity of every foreground particle, after the
  forces of that frame have been added to it, is multiplied by the damping factor
  \<open>0.92\<close> exactly once: the collision checks move particles and leave velocities alone.
  In a frame with zero applied forces (pointer inactive, no scroll, the particle on its
  origin) the new velocity is therefore the old one times \<open>0.92\<close>, rounded to binary64,
  and neither component grows in magnitude: the speed does not increase. That frame
  moves the particle off its origin, so the spring force acts in the frames that follow
  and a monotonic decrease over successive frames does not hold.
\<close>

theorem damping_once:
  assumes "canvasRef st = Some canvas" and "has_ctx canvas"
    and "k < length (particlesRef st)"
    and "p = particlesRef st ! k" and "p' = particlesRef (animate env st) ! k"
    and "scrollForce = scrollForce_of
           (case scrollRef env of None \<Rightarrow> Fin 0
            | Some currentScroll \<Rightarrow> currentScroll - lastScrollTopRef st)"
  shows "p_vx p' = p_vx (apply_forces (mouseRef st) scrollForce p) * DAMPING
       \<and> p_vy p' = p_vy (apply_forces (mouseRef st) scrollForce p) * DAMPING
       \<and> (\<not> isActive (mouseRef st) \<and> scrollForce = Fin 0
            \<and> p_x p = originX p \<and> p_y p = originY p \<and> p_x p = Fin a \<and> p_y p = Fin b
            \<and> p_vx p = Fin u \<and> p_vy p = Fin v \<and> is_double (Fin u) \<and> is_double (Fin v)
          \<longrightarrow> p_vx p' = Fin u * DAMPING \<and> p_vy p' = Fin v * DAMPING
            \<and> (\<exists>u' v'. p_vx p' = Fin u' \<and> p_vy p' = Fin v' \<and> \<bar>u'\<bar> \<le> \<bar>u\<bar> \<and> \<bar>v'\<bar> \<le> \<bar>v\<bar>
                 \<and> u' * u' + v' * v' \<le> u * u + v * v))"
proof -
  obtain q where q: "same_but_position (apply_forces (mouseRef st) scrollForce p) q"
      "p' = integrate q"
    using animate_particle [OF assms(1-3), of env] assms(4-6) by blast
  have v: "p_vx p' = p_vx (apply_forces (mouseRef st) scrollForce p) * DAMPING"
    "p_vy p' = p_vy (apply_forces (mouseRef st) scrollForce p) * DAMPING"
    using q by (simp_all add: integrate_velocity same_but_position_def)
  have "p_vx p' = Fin u * DAMPING \<and> p_vy p' = Fin v * DAMPING
      \<and> (\<exists>u' v'. p_vx p' = Fin u' \<and> p_vy p' = Fin v' \<and> \<bar>u'\<bar> \<le> \<bar>u\<bar> \<and> \<bar>v'\<bar> \<le> \<bar>v\<bar>
           \<and> u' * u' + v' * v' \<le> u * u + v * v)"
    if h: "\<not> isActive (mouseRef st)" "scrollForce = Fin 0"
      "p_x p = originX p" "p_y p = originY p" "p_x p = Fin a" "p_y p = Fin b"
      "p_vx p = Fin u" "p_vy p = Fin v" "is_double (Fin u)" "is_double (Fin v)"
  proof -
    have f: "p_vx (apply_forces (mouseRef st) scrollForce p) = Fin u"
      "p_vy (apply_forces (mouseRef st) scrollForce p) = Fin v"
      using not_active_forces [OF h(1,3-10)] h(2) by simp_all
    obtain u' where u': "Fin u * DAMPING = Fin u'" "\<bar>u'\<bar> \<le> \<bar>u\<bar>"
      using scale_le [OF h(9), of "8286623314361713 / 9007199254740992"]
      by (auto simp: constants)
    obtain v' where v': "Fin v * DAMPING = Fin v'" "\<bar>v'\<bar> \<le> \<bar>v\<bar>"
      using scale_le [OF h(10), of "8286623314361713 / 9007199254740992"]
      by (auto simp: constants)
    have "u' * u' \<le> u * u" "v' * v' \<le> v * v"
      using u'(2) v'(2) by (simp_all add: abs_le_square_iff power2_eq_square)
    then have "u' * u' + v' * v' \<le> u * u + v * v"
      by simp
    then show ?thesis
      using v f u' v' by auto
  qed
  then show ?thesis
    using v by blast
qed

theorem damping_once_witness:
  "p_vx (particlesRef (animate still_env moving_state) ! 0)
     = Fin (8286623314361713 / 9007199254740992)
   \<and> p_vy (particlesRef (animate still_env moving_state) ! 0) = Fin 0"
proof -
  have c: "canvasRef moving_state = Some example_canvas" "has_ctx example_canvas"
    "0 < length (particlesRef moving_state)"
    by (simp_all add: moving_state_def example_state_def example_canvas_def)
  have h: "\<not> isActive (mouseRef moving_state)"
    "scrollForce_of (case scrollRef still_env of None \<Rightarrow> Fin 0
       | Some currentScroll \<Rightarrow> currentScroll - lastScrollTopRef moving_state) = Fin 0"
    "p_x (particlesRef moving_state ! 0) = originX (particlesRef moving_state ! 0)"
    "p_y (particlesRef moving_state ! 0) = originY (particlesRef moving_state ! 0)"
    "p_x (particlesRef moving_state ! 0) = Fin 100" "p_y (particlesRef moving_state ! 0) = Fin 100"
    "p_vx (particlesRef moving_state ! 0) = Fin 1" "p_vy (particlesRef moving_state ! 0) = Fin 0"
    by (simp_all add: moving_state_def example_state_def still_env_def moving_particle_def
          constants)
  have d: "is_double (Fin 1)" "is_double (Fin 0)"
    by (simp_all add: is_double_def arith_eval)
  have e: "Fin 1 * DAMPING = Fin (8286623314361713 / 9007199254740992)" "Fin 0 * DAMPING = Fin 0"
    by (simp_all add: constants arith_eval)
  have "p_vx (particlesRef (animate still_env moving_state) ! 0) = Fin 1 * DAMPING
      \<and> p_vy (particlesRef (animate still_env moving_state) ! 0) = Fin 0 * DAMPING
      \<and> (\<exists>u' v'. p_vx (particlesRef (animate still_env moving_state) ! 0) = Fin u'
            \<and> p_vy (particlesRef (animate still_env moving_state) ! 0) = Fin v'
            \<and> \<bar>u'\<bar> \<le> \<bar>1\<bar> \<and> \<bar>v'\<bar> \<le> \<bar>0\<bar> \<and> u' * u' + v' * v' \<le> 1 * 1 + 0 * 0)"
    by (rule damping_once [OF c refl refl refl, of still_env 100 100 1 0,
          THEN conjunct2, THEN conjunct2, THEN mp])
       (intro conjI, (rule h d)+)
  then show ?thesis
    by (simp only: e)
qed

section \<open>Signs of products and quotients\<close>

lemma fl_not_neg: "0 \<le> q \<Longrightarrow> \<not> fl q < Fin 0"
  using fl_nonneg [of q] by auto

lemma fl_not_pos: "q \<le> 0 \<Longrightarrow> \<not> Fin 0 < fl q"
proof -
  assume "q \<le> 0"
  then have "\<not> fl (- q) < Fin 0"
    by (intro fl_not_neg) simp
  then show ?thesis
    by (cases "fl q") (simp_all add: fl_neg)
qed

lemma times_not_neg:
  assumes "\<not> a < Fin 0" and "\<not> b < Fin 0"
  shows "\<not> a * b < Fin 0"
proof (cases a)
  case (Fin x)
  note a = this
  show ?thesis
  proof (cases b)
    case (Fin y)
    with a assms have "0 \<le> x * y"
      by simp
    then show ?thesis
      using a Fin by (simp add: fl_not_neg times_Fin)
  qed (use a assms in \<open>simp_all add: Let_def\<close>)
next
  case PosInf
  with assms show ?thesis
    by (cases b) (simp_all add: Let_def)
qed (use assms in simp_all)

lemma times_not_pos:
  assumes "\<not> Fin 0 < a" and "\<not> b < Fin 0"
  shows "\<not> Fin 0 < a * b"
proof (cases a)
  case (Fin x)
  note a = this
  show ?thesis
  proof (cases b)
    case (Fin y)
    with a assms have "x * y \<le> 0"
      by (simp add: mult_le_0_iff)
    then show ?thesis
      using a Fin by (simp add: fl_not_pos times_Fin)
  qed (use a assms in \<open>simp_all add: Let_def\<close>)
next
  case NegInf
  with assms show ?thesis
    by (cases b) (simp_all add: Let_def)
qed (use assms in simp_all)

lemma divide_not_neg:
  assumes "\<not> a < Fin 0" and "\<not> b < Fin 0"
  shows "\<not> a / b < Fin 0"
proof (cases a)
  case (Fin x)
  note a = this
  show ?thesis
  proof (cases b)
    case (Fin y)
    with a assms have "0 \<le> x / y"
      by simp
    then show ?thesis
      using a Fin assms by (simp add: fl_not_neg divide_Fin)
  qed (use a assms in simp_all)
next
  case PosInf
  with assms show ?thesis
    by (cases b) simp_all
qed (use assms in simp_all)

lemma divide_not_pos:
  assumes "\<not> Fin 0 < a" and "\<not> b < Fin 0"
  shows "\<not> Fin 0 < a / b"
proof (cases a)
  case (Fin x)
  note a = this
  show ?thesis
  proof (cases b)
    case (Fin y)
    with a assms have "x / y \<le> 0"
      by (simp add: divide_le_0_iff)
    then show ?thesis
      using a Fin assms by (simp add: fl_not_pos divide_Fin)
  qed (use a assms in simp_all)
next
  case NegInf
  with assms show ?thesis
    by (cases b) simp_all
qed (use assms in simp_all)

lemma isqrt_bits_nonneg: "0 \<le> r \<Longrightarrow> 0 \<le> isqrt_bits b n r"
  by (induction b arbitrary: r) simp_all

lemma Math_sqrt_not_neg: "\<not> Math_sqrt v < Fin 0"
proof (cases v)
  case (Fin a)
  have "0 \<le> isqrt n" for n
    by (simp add: isqrt_def isqrt_bits_nonneg)
  then have "\<not> sqrt_fl a < Fin 0"
    using pow2_pos by (simp add: sqrt_fl_def Let_def not_less order_less_imp_le)
  then show ?thesis
    using Fin by (simp add: sqrt_Fin)
qed simp_all

lemma not_neg_iff: "\<not> v < Fin 0 \<longleftrightarrow> v = NaN \<or> Fin 0 \<le> v"
  by (cases v) auto

lemma not_pos_iff: "\<not> Fin 0 < v \<longleftrightarrow> v = NaN \<or> v \<le> Fin 0"
  by (cases v) auto

section \<open>Collision resolution\<close>

text \<open>Two overlapping particles of radius 2, the second at \<open>(1, 2)\<close> from the first.\<close>

definition skew_pair :: "Particle \<times> Particle" where
  "skew_pair =
     (\<lparr>p_x = Fin 0, p_y = Fin 0, originX = Fin 0, originY = Fin 0, p_vx = Fin 0,
       p_vy = Fin 0, p_size = Fin 2, color = ''#ffffff'', angle = Fin 0\<rparr>,
      \<lparr>p_x = Fin 1, p_y = Fin 2, originX = Fin 1, originY = Fin 2, p_vx = Fin 0,
       p_vy = Fin 0, p_size = Fin 2, color = ''#ffffff'', angle = Fin 0\<rparr>)"

lemma sqrt_5: "Math_sqrt (Fin 5) = Fin (629397181890197 / 281474976710656)"
  by code_simp

lemma half: "lit (5 / 10) = Fin (1 / 2)" "lit (1 / 2) = Fin (1 / 2)"
  by (simp_all add: lit_def arith_eval)

lemma collide_skew_pair:
  "collide (fst skew_pair) (snd skew_pair) =
     ((fst skew_pair)\<lparr>p_x := Fin (- (3552684300824025 / 9007199254740992)),
                       p_y := Fin (- (3552684300824025 / 4503599627370496))\<rparr>,
      (snd skew_pair)\<lparr>p_x := Fin (1569985444445627 / 1125899906842624),
                       p_y := Fin (1569985444445627 / 562949953421312)\<rparr>)"
proof -
  have d: "Fin 1 - Fin 0 = Fin 1" "Fin 2 - Fin 0 = Fin 2" "Fin 1 * Fin 1 + Fin 2 * Fin 2 = Fin 5"
    "Fin 2 + Fin 2 = Fin 4" "Fin 4 * Fin 4 = Fin 16"
    by (simp_all add: arith_eval)
  have push: "Fin 1 / Fin (629397181890197 / 281474976710656)
        * (Fin 4 - Fin (629397181890197 / 281474976710656)) * Fin (1 / 2)
      = Fin (3552684300824025 / 9007199254740992)"
    "Fin 2 / Fin (629397181890197 / 281474976710656)
        * (Fin 4 - Fin (629397181890197 / 281474976710656)) * Fin (1 / 2)
      = Fin (3552684300824025 / 4503599627370496)"
    by (simp_all add: arith_eval)
  have move: "Fin 0 - Fin (3552684300824025 / 9007199254740992)
      = Fin (- (3552684300824025 / 9007199254740992))"
    "Fin 0 - Fin (3552684300824025 / 4503599627370496)
      = Fin (- (3552684300824025 / 4503599627370496))"
    "Fin 1 + Fin (3552684300824025 / 9007199254740992)
      = Fin (1569985444445627 / 1125899906842624)"
    "Fin 2 + Fin (3552684300824025 / 4503599627370496)
      = Fin (1569985444445627 / 562949953421312)"
    by (simp_all add: arith_eval)
  have g: "Fin (1 / 100) \<noteq> NaN" by simp
  show ?thesis
    unfolding collide_def skew_pair_def
    by (simp add: Let_def d sqrt_5 half guard_value push move)
qed

text \<open>The test of the source for an overlap, on the pair after its resolution.\<close>

lemma overlap_after:
  "overlap
     ((fst skew_pair)\<lparr>p_x := Fin (- (3552684300824025 / 9007199254740992)),
                       p_y := Fin (- (3552684300824025 / 4503599627370496))\<rparr>)
     ((snd skew_pair)\<lparr>p_x := Fin (1569985444445627 / 1125899906842624),
                       p_y := Fin (1569985444445627 / 562949953421312)\<rparr>)"
  by (simp add: overlap_def skew_pair_def arith_eval)

text \<open>
  One resolution of this pair does not leave it touching, and does not split the
  separation evenly: the exact squared distance of the two new positions is not
  \<open>(2 * 2)\<^sup>2\<close>, the overlap test of the source still holds for the new positions, and the
  second particle has moved less far in \<open>x\<close> than the first.
\<close>

theorem touching_counterexample:
  "collide (fst skew_pair) (snd skew_pair) =
     ((fst skew_pair)\<lparr>p_x := Fin (- (3552684300824025 / 9007199254740992)),
                       p_y := Fin (- (3552684300824025 / 4503599627370496))\<rparr>,
      (snd skew_pair)\<lparr>p_x := Fin (1569985444445627 / 1125899906842624),
                       p_y := Fin (1569985444445627 / 562949953421312)\<rparr>)
   \<and> (1569985444445627 / 1125899906842624 - (- 3552684300824025 / 9007199254740992))\<^sup>2
       + (1569985444445627 / 562949953421312 - (- 3552684300824025 / 4503599627370496))\<^sup>2
       < ((2 + 2)\<^sup>2 :: rat)
   \<and> overlap (fst (collide (fst skew_pair) (snd skew_pair)))
         (snd (collide (fst skew_pair) (snd skew_pair)))
   \<and> (1569985444445627 / 1125899906842624 - 1 :: rat)
       < 0 - (- 3552684300824025 / 9007199254740992)"
  using overlap_after by (simp add: collide_skew_pair power2_eq_square)

lemma apart_not_neg:
  assumes "\<not> d < Fin 0" and "\<not> ov < Fin 0" and "\<not> x < Fin 0"
  shows "\<not> x / d * ov * lit (5 / 10) < Fin 0"
  by (intro times_not_neg divide_not_neg assms) (simp add: half)

lemma apart_not_pos:
  assumes "\<not> d < Fin 0" and "\<not> ov < Fin 0" and "\<not> Fin 0 < x"
  shows "\<not> Fin 0 < x / d * ov * lit (5 / 10)"
  by (intro times_not_pos divide_not_pos assms) (simp add: half)

text \<open>
  Claim C4, amended. For two particles of equal radius \<open>r\<close> whose squared distance is below
  \<open>(r + r)\<^sup>2\<close> and whose distance \<open>d\<close> is above \<open>0.01\<close>, the collision check subtracts from
  the position of the first particle, and adds to the position of the second, the same
  vector \<open>push = n * (2r - d) * 0.5\<close>, where \<open>n = (dx / d, dy / d)\<close> is the normal from the
  first to the second particle; nothing else of the two particles changes. When the
  computed overlap \<open>2r - d\<close> is not negative, no component of \<open>push\<close> has the sign opposite
  to that of the offset \<open>(dx, dy)\<close>: neither particle is moved towards the other. Every
  operation is one of binary64 arithmetic: the pair is left touching, and the
  separation split evenly, only as far as the roundings allow.
\<close>

theorem pair_resolution:
  assumes "p_size p1 = r" and "p_size p2 = r"
    and "dx = p_x p2 - p_x p1" and "dy = p_y p2 - p_y p1"
    and "d = Math_sqrt (dx * dx + dy * dy)"
    and "dx * dx + dy * dy < (r + r) * (r + r)" and "d > lit (1 / 100)"
    and "pushX = dx / d * (r + r - d) * lit (5 / 10)"
    and "pushY = dy / d * (r + r - d) * lit (5 / 10)"
  shows "collide p1 p2 =
     (p1\<lparr>p_x := p_x p1 - pushX, p_y := p_y p1 - pushY\<rparr>,
      p2\<lparr>p_x := p_x p2 + pushX, p_y := p_y p2 + pushY\<rparr>)
    \<and> (Fin 0 \<le> r + r - d \<longrightarrow>
          (Fin 0 \<le> dx \<longrightarrow> pushX = NaN \<or> Fin 0 \<le> pushX)
        \<and> (dx \<le> Fin 0 \<longrightarrow> pushX = NaN \<or> pushX \<le> Fin 0)
        \<and> (Fin 0 \<le> dy \<longrightarrow> pushY = NaN \<or> Fin 0 \<le> pushY)
        \<and> (dy \<le> Fin 0 \<longrightarrow> pushY = NaN \<or> pushY \<le> Fin 0))"
proof (intro conjI impI)
  show "collide p1 p2 =
     (p1\<lparr>p_x := p_x p1 - pushX, p_y := p_y p1 - pushY\<rparr>,
      p2\<lparr>p_x := p_x p2 + pushX, p_y := p_y p2 + pushY\<rparr>)"
    using assms by (simp add: collide_def Let_def)
next
  have d: "\<not> d < Fin 0"
    unfolding assms(5) by (rule Math_sqrt_not_neg)
  assume "Fin 0 \<le> r + r - d"
  then have o: "\<not> r + r - d < Fin 0"
    by (simp add: not_neg_iff)
  {
    assume "Fin 0 \<le> dx"
    then have "\<not> dx < Fin 0"
      by (simp add: not_neg_iff)
    then show "pushX = NaN \<or> Fin 0 \<le> pushX"
      unfolding assms(8) not_neg_iff [symmetric] by (rule apart_not_neg [OF d o])
  }
  {
    assume "dx \<le> Fin 0"
    then have "\<not> Fin 0 < dx"
      by (simp add: not_pos_iff)
    then show "pushX = NaN \<or> pushX \<le> Fin 0"
      unfolding assms(8) not_pos_iff [symmetric] by (rule apart_not_pos [OF d o])
  }
  {
    assume "Fin 0 \<le> dy"
    then have "\<not> dy < Fin 0"
      by (simp add: not_neg_iff)
    then show "pushY = NaN \<or> Fin 0 \<le> pushY"
      unfolding assms(9) not_neg_iff [symmetric] by (rule apart_not_neg [OF d o])
  }
  {
    assume "dy \<le> Fin 0"
    then have "\<not> Fin 0 < dy"
      by (simp add: not_pos_iff)
    then show "pushY = NaN \<or> pushY \<le> Fin 0"
      unfolding assms(9) not_pos_iff [symmetric] by (rule apart_not_pos [OF d o])
  }
qed

theorem pair_resolution_witness:
  "collide (close_pair ! 0) (close_pair ! 1) =
     ((close_pair ! 0)\<lparr>p_x := Fin (17 / 2), p_y := Fin 10\<rparr>,
      (close_pair ! 1)\<lparr>p_x := Fin (25 / 2), p_y := Fin 10\<rparr>)
   \<and> (25 / 2 - 17 / 2 :: rat)\<^sup>2 + (10 - 10)\<^sup>2 = (2 + 2)\<^sup>2
   \<and> Fin 0 \<le> Fin (3 / 2)"
proof -
  have s: "p_size (close_pair ! 0) = Fin 2" "p_size (close_pair ! 1) = Fin 2"
    by (simp_all add: close_pair_def)
  have e: "p_x (close_pair ! Suc 0) - p_x (close_pair ! 0) = Fin 1"
    "p_y (close_pair ! Suc 0) - p_y (close_pair ! 0) = Fin 0"
    "Fin 1 * Fin 1 + Fin 0 * Fin 0 = Fin 1" "(Fin 2 + Fin 2) * (Fin 2 + Fin 2) = Fin 16"
    "Fin 1 / Fin 1 * (Fin 2 + Fin 2 - Fin 1) * lit (1 / 2) = Fin (3 / 2)"
    "Fin 0 / Fin 1 * (Fin 2 + Fin 2 - Fin 1) * lit (1 / 2) = Fin 0"
    "Fin 10 - Fin (3 / 2) = Fin (17 / 2)" "Fin 11 + Fin (3 / 2) = Fin (25 / 2)"
    "Fin 10 - Fin 0 = Fin 10" "Fin 10 + Fin 0 = Fin 10"
    by (simp_all add: close_pair_def half arith_eval)
  have r: "Math_sqrt (Fin 1) = Fin 1"
    by code_simp
  have "collide (close_pair ! 0) (close_pair ! 1) =
     ((close_pair ! 0)\<lparr>p_x := p_x (close_pair ! 0) - Fin (3 / 2),
                        p_y := p_y (close_pair ! 0) - Fin 0\<rparr>,
      (close_pair ! 1)\<lparr>p_x := p_x (close_pair ! 1) + Fin (3 / 2),
                        p_y := p_y (close_pair ! 1) + Fin 0\<rparr>)
    \<and> (Fin 0 \<le> Fin 2 + Fin 2 - Fin 1 \<longrightarrow>
          (Fin 0 \<le> Fin 1 \<longrightarrow> Fin (3 / 2) = NaN \<or> Fin 0 \<le> Fin (3 / 2))
        \<and> (Fin 1 \<le> Fin 0 \<longrightarrow> Fin (3 / 2) = NaN \<or> Fin (3 / 2) \<le> Fin 0)
        \<and> (Fin 0 \<le> Fin 0 \<longrightarrow> Fin 0 = NaN \<or> Fin 0 \<le> Fin 0)
        \<and> (Fin 0 \<le> Fin 0 \<longrightarrow> Fin 0 = NaN \<or> Fin 0 \<le> Fin 0))"
    by (rule pair_resolution [where dx = "Fin 1" and dy = "Fin 0" and d = "Fin 1"
          and pushX = "Fin (3 / 2)" and pushY = "Fin 0", OF s])
      (simp_all add: e r guard_value)
  then show ?thesis
    by (simp add: close_pair_def e power2_eq_square)
qed

section \<open>Mouse repulsion\<close>












end
